theory Spec2Isabelle
  imports Complex_Main "HOL-Library.AList" "HOL-Library.Product_Lexorder"
begin

section \<open>Python strings\<close>

text \<open>
  Text is a list of characters, read as ASCII: \<open>lower\<close> maps \<open>A\<close>..\<open>Z\<close> to
  \<open>a\<close>..\<open>z\<close> and leaves every other character alone, and the length of a string
  is its number of characters. Each function below stands for the Python built-in
  named in its comment, at the arguments the agents pass (separators and patterns
  are never empty there).
\<close>

definition lower_char :: "char \<Rightarrow> char" where
  "lower_char c =
     (case map_of (zip ''ABCDEFGHIJKLMNOPQRSTUVWXYZ'' ''abcdefghijklmnopqrstuvwxyz'') c of
        None \<Rightarrow> c | Some d \<Rightarrow> d)"

definition lower :: "string \<Rightarrow> string" where
  \<comment> \<open>\<open>s.lower()\<close>\<close>
  "lower s = map lower_char s"

fun startswith :: "string \<Rightarrow> string \<Rightarrow> bool" where
  \<comment> \<open>\<open>s.startswith(p)\<close>\<close>
  "startswith s [] = True"
| "startswith [] (p # ps) = False"
| "startswith (c # cs) (p # ps) = (c = p \<and> startswith cs ps)"

fun contains :: "string \<Rightarrow> string \<Rightarrow> bool" where
  \<comment> \<open>\<open>pat in s\<close>\<close>
  "contains pat [] = (pat = [])"
| "contains pat (c # cs) = (startswith (c # cs) pat \<or> contains pat cs)"

function split_str :: "string \<Rightarrow> string \<Rightarrow> string list" where
  \<comment> \<open>\<open>s.split(sep)\<close>: the pieces between the occurrences of \<open>sep\<close>, scanned from the left\<close>
  "split_str sep [] = [[]]"
| "split_str sep (c # cs) =
     (if sep \<noteq> [] \<and> startswith (c # cs) sep
      then [] # split_str sep (drop (length sep) (c # cs))
      else (case split_str sep cs of [] \<Rightarrow> [[c]] | w # ws \<Rightarrow> (c # w) # ws))"
  by pat_completeness auto
termination
  by (relation "measure (\<lambda>(sep, s). length s)") auto

fun split_once :: "string \<Rightarrow> string \<Rightarrow> string list" where
  \<comment> \<open>\<open>s.split(sep, 1)\<close>: split at the first occurrence of \<open>sep\<close> only\<close>
  "split_once sep [] = [[]]"
| "split_once sep (c # cs) =
     (if sep \<noteq> [] \<and> startswith (c # cs) sep
      then [[], drop (length sep) (c # cs)]
      else (case split_once sep cs of [] \<Rightarrow> [[c]] | w # ws \<Rightarrow> (c # w) # ws))"

function count_str :: "string \<Rightarrow> string \<Rightarrow> nat" where
  \<comment> \<open>\<open>s.count(pat)\<close>: the number of non-overlapping occurrences\<close>
  "count_str pat [] = 0"
| "count_str pat (c # cs) =
     (if pat \<noteq> [] \<and> startswith (c # cs) pat
      then Suc (count_str pat (drop (length pat) (c # cs)))
      else count_str pat cs)"
  by pat_completeness auto
termination
  by (relation "measure (\<lambda>(pat, s). length s)") auto

function replace :: "string \<Rightarrow> string \<Rightarrow> string \<Rightarrow> string" where
  \<comment> \<open>\<open>s.replace(old, new)\<close>\<close>
  "replace old new [] = []"
| "replace old new (c # cs) =
     (if old \<noteq> [] \<and> startswith (c # cs) old
      then new @ replace old new (drop (length old) (c # cs))
      else c # replace old new cs)"
  by pat_completeness auto
termination
  by (relation "measure (\<lambda>(old, new, s). length s)") auto

fun join :: "string \<Rightarrow> string list \<Rightarrow> string" where
  \<comment> \<open>\<open>sep.join(xs)\<close>\<close>
  "join sep [] = []"
| "join sep [x] = x"
| "join sep (x # y # ys) = x @ sep @ join sep (y # ys)"

definition is_space :: "char \<Rightarrow> bool" where
  \<comment> \<open>the ASCII characters for which \<open>str.isspace\<close> holds\<close>
  "is_space c = (c \<in> set [CHR '' '', CHR 0x09, CHR 0x0A, CHR 0x0B, CHR 0x0C, CHR 0x0D,
                            CHR 0x1C, CHR 0x1D, CHR 0x1E, CHR 0x1F])"

definition strip :: "string \<Rightarrow> string" where
  \<comment> \<open>\<open>s.strip()\<close>\<close>
  "strip s = rev (dropWhile is_space (rev (dropWhile is_space s)))"

definition last_n :: "nat \<Rightarrow> 'a list \<Rightarrow> 'a list" where
  \<comment> \<open>\<open>xs[-n:]\<close> for \<open>n > 0\<close>\<close>
  "last_n n xs = drop (length xs - n) xs"


section \<open>Reflection: the coarse quality estimate\<close>

definition positive_terms :: "string list" where
  "positive_terms = [''strong'', ''valid'', ''plausible'', ''consistent'', ''novel'', ''innovative'']"

definition negative_terms :: "string list" where
  "negative_terms =
     [''weak'', ''invalid'', ''implausible'', ''inconsistent'', ''contradicts'', ''flawed'']"

definition positive_count :: "string \<Rightarrow> nat" where
  \<comment> \<open>\<open>sum(term in review.lower() for term in positive_terms)\<close>\<close>
  "positive_count review = length (filter (\<lambda>term. contains term (lower review)) positive_terms)"

definition negative_count :: "string \<Rightarrow> nat" where
  "negative_count review = length (filter (\<lambda>term. contains term (lower review)) negative_terms)"

definition estimate_score :: "string \<Rightarrow> rat" where
  \<comment> \<open>\<open>ReflectionAgent._estimate_score\<close>; the float quotient is the exact rational here\<close>
  "estimate_score review =
     (let total = positive_count review + negative_count review
      in if total = 0 then 1 / 2
         else of_nat (positive_count review) / of_nat total)"


section \<open>Synthesis: the report title\<close>

fun scan_title :: "string list \<Rightarrow> string" where
  \<comment> \<open>the \<open>for line in lines[:10]\<close> loop of \<open>_extract_title\<close> and the default after it\<close>
  "scan_title [] = ''Research Report''"
| "scan_title (line # rest) =
     (if strip line \<noteq> [] \<and> \<not> startswith line ''#'' \<and> length line < 100
      then strip line
      else scan_title rest)"

definition extract_title :: "string \<Rightarrow> string" where
  \<comment> \<open>\<open>MetaReviewAgent._extract_title\<close>\<close>
  "extract_title report = scan_title (take 10 (split_str ''\<newline>'' report))"

fun first_short_line :: "string list \<Rightarrow> string" where
  \<comment> \<open>the title as the specification words it: the first non-empty line under 100
      characters, else the placeholder\<close>
  "first_short_line [] = ''Research Report''"
| "first_short_line (line # rest) =
     (if line \<noteq> [] \<and> length line < 100 then line else first_short_line rest)"

definition spec_title :: "string \<Rightarrow> string" where
  "spec_title report = first_short_line (take 10 (split_str ''\<newline>'' report))"


section \<open>Generation: parsing the response into hypothesis records\<close>

type_synonym sdict = "(string \<times> string) list"
  \<comment> \<open>a \<open>Dict[str, str]\<close> in insertion order; \<open>AList.update\<close> is \<open>d[k] = v\<close>\<close>

definition section_body :: "string \<Rightarrow> string" where
  \<comment> \<open>\<open>section.split(":\n", 1)[-1] if ":\n" in section else section\<close>\<close>
  "section_body s =
     (if contains '':\<newline>'' s then last (split_once '':\<newline>'' s) else s)"

fun parse_section :: "sdict list \<times> sdict \<Rightarrow> string \<Rightarrow> sdict list \<times> sdict" where
  \<comment> \<open>one pass of the loop over the sections; the state is
      \<open>(hypotheses, current_hypothesis)\<close>\<close>
  "parse_section (hypotheses, current_hypothesis) s =
     (if contains ''Hypothesis'' s \<and> map_of current_hypothesis ''hypothesis'' = None
      then ((if current_hypothesis \<noteq> [] then hypotheses @ [current_hypothesis]
             else hypotheses),
            [(''hypothesis'', section_body s), (''rationale'', ''''), (''evidence'', ''''),
             (''assumptions'', ''''), (''validation'', '''')])
      else if contains ''Rationale'' s
      then (hypotheses, AList.update ''rationale'' (section_body s) current_hypothesis)
      else if contains ''Evidence'' s
      then (hypotheses, AList.update ''evidence'' (section_body s) current_hypothesis)
      else if contains ''Assumptions'' s
      then (hypotheses, AList.update ''assumptions'' (section_body s) current_hypothesis)
      else if contains ''Validation'' s \<or> contains ''Testing'' s
      then (hypotheses, AList.update ''validation'' (section_body s) current_hypothesis)
      else (hypotheses, current_hypothesis))"

definition parse_hypotheses :: "string \<Rightarrow> sdict list" where
  \<comment> \<open>\<open>GenerationAgent._parse_hypotheses\<close>\<close>
  "parse_hypotheses response =
     (case foldl parse_section ([], []) (split_str ''\<newline>\<newline>'' response) of
        (hypotheses, current_hypothesis) \<Rightarrow>
          if current_hypothesis \<noteq> [] then hypotheses @ [current_hypothesis]
          else hypotheses)"

section \<open>Python values, hypothesis records, the reasoning service\<close>

datatype pyval =
    PNone | PBool bool | PInt int | PFloat rat | PStr string
  | PList "pyval list" | PDict "(string \<times> pyval) list"

type_synonym hypothesis = "(string \<times> pyval) list"
  \<comment> \<open>a \<open>Dict[str, Any]\<close> in insertion order: \<open>map_of h k\<close> is \<open>h.get(k)\<close>,
      \<open>AList.update k v h\<close> is \<open>h[k] = v\<close> on a copy, \<open>AList.delete k h\<close> is \<open>del h[k]\<close>\<close>

datatype py_error = KeyError string | TypeError | ValueError

type_synonym responses = "nat \<Rightarrow> string"
  \<comment> \<open>the reasoning service as one agent sees it during one call of an operation:
      \<open>resp k\<close> is the text \<open>get_response\<close> returns at its \<open>k\<close>-th call (from 0).
      The prompts only reach the service, so the theorems hold for every \<open>resp\<close>.\<close>

definition sliceable :: "pyval \<Rightarrow> bool" where
  \<comment> \<open>the values \<open>v\<close> of this model for which \<open>v[:n]\<close> does not raise\<close>
  "sliceable v = (case v of PStr s \<Rightarrow> True | PList xs \<Rightarrow> True | _ \<Rightarrow> False)"

definition num_of :: "pyval \<Rightarrow> rat option" where
  \<comment> \<open>the number a value stands for in a comparison, \<open>None\<close> where Python raises TypeError\<close>
  "num_of v = (case v of PInt i \<Rightarrow> Some (of_int i) | PFloat r \<Rightarrow> Some r
                 | PBool b \<Rightarrow> Some (if b then 1 else 0) | _ \<Rightarrow> None)"

definition sorted_reverse :: "('a \<Rightarrow> 'k::linorder) \<Rightarrow> 'a list \<Rightarrow> 'a list" where
  \<comment> \<open>\<open>sorted(xs, key=key, reverse=True)\<close>: the list is reversed, sorted by the stable
      ascending sort, and reversed again\<close>
  "sorted_reverse key xs = rev (sort_key key (rev xs))"

definition digit_char :: "nat \<Rightarrow> char" where
  "digit_char d = ''0123456789'' ! d"

function str_nat :: "nat \<Rightarrow> string" where
  "str_nat n = (if n < 10 then [digit_char n] else str_nat (n div 10) @ [digit_char (n mod 10)])"
  by pat_completeness auto
termination
  by (relation "measure id") auto

declare str_nat.simps [simp del]

definition str_int :: "int \<Rightarrow> string" where
  \<comment> \<open>\<open>str(i)\<close>, as an f-string or \<open>format\<close> renders an int\<close>
  "str_int i = (if i < 0 then ''-'' @ str_nat (nat (- i)) else str_nat (nat i))"

definition digit_val :: "char \<Rightarrow> int option" where
  "digit_val c = map_of (zip ''0123456789'' [0, 1, 2, 3, 4, 5, 6, 7, 8, 9]) c"

definition py_int :: "string \<Rightarrow> py_error + int" where
  \<comment> \<open>\<open>int(s)\<close> on a string of decimal digits, the only strings the extraction gives it;
      the model raises on every other string\<close>
  "py_int s =
     (if s \<noteq> [] \<and> list_all (\<lambda>c. digit_val c \<noteq> None) s
      then Inr (foldl (\<lambda>a c. 10 * a + the (digit_val c)) 0 s)
      else Inl ValueError)"


section \<open>Ranking: the pairwise tournament\<close>

definition determine_winner :: "string \<Rightarrow> int \<Rightarrow> int \<Rightarrow> int" where
  \<comment> \<open>\<open>RankingAgent._determine_winner\<close>\<close>
  "determine_winner comparison_text hyp1_id hyp2_id =
     (let lower_text = lower comparison_text;
          h1 = ''hypothesis '' @ str_int hyp1_id;
          h2 = ''hypothesis '' @ str_int hyp2_id
      in if contains (h1 @ '' is superior'') lower_text
            \<or> contains (h1 @ '' is stronger'') lower_text then hyp1_id
         else if contains (h2 @ '' is superior'') lower_text
            \<or> contains (h2 @ '' is stronger'') lower_text then hyp2_id
         else
           let hyp1_strength_count =
                 count_str (h1 @ '' is more'') lower_text
                 + count_str (h1 @ '' has higher'') lower_text;
               hyp2_strength_count =
                 count_str (h2 @ '' is more'') lower_text
                 + count_str (h2 @ '' has higher'') lower_text
           in if hyp1_strength_count > hyp2_strength_count then hyp1_id
              else if hyp2_strength_count > hyp1_strength_count then hyp2_id
              else
                let last_sentences = join ''.'' (last_n 3 (split_str ''.'' comparison_text))
                in if contains h1 (lower last_sentences)
                      \<and> \<not> contains h2 (lower last_sentences) then hyp1_id
                   else if contains h2 (lower last_sentences)
                      \<and> \<not> contains h1 (lower last_sentences) then hyp2_id
                   else 0)"

definition pairs :: "nat \<Rightarrow> (nat \<times> nat) list" where
  \<comment> \<open>\<open>for i in range(n): for j in range(i+1, n): pairs.append((i, j))\<close>\<close>
  "pairs n = concat (map (\<lambda>i. map (\<lambda>j. (i, j)) [Suc i..<n]) [0..<n])"

record comparison =
  hypothesis1_idx :: nat
  hypothesis2_idx :: nat
  winner :: int
  reasoning :: string

fun compare_step ::
  "responses \<Rightarrow> nat list \<times> comparison list \<Rightarrow> nat \<times> nat \<Rightarrow> nat list \<times> comparison list"
where
  \<comment> \<open>one pass of \<open>for pair in pairs\<close>; the state is \<open>(wins, comparisons)\<close>, and the
      judgment is the service's next answer\<close>
  "compare_step resp (wins, comparisons) (i, j) =
     (let comparison_result = resp (length comparisons);
          w = determine_winner comparison_result 1 2;
          comparisons' = comparisons @
            [\<lparr>hypothesis1_idx = i, hypothesis2_idx = j, winner = w,
              reasoning = comparison_result\<rparr>]
      in if w = 1 then (wins[i := wins ! i + 1], comparisons')
         else if w = 2 then (wins[j := wins ! j + 1], comparisons')
         else (wins, comparisons'))"

definition run_comparisons :: "responses \<Rightarrow> nat \<Rightarrow> nat list \<times> comparison list" where
  "run_comparisons resp n = foldl (compare_step resp) (replicate n 0, []) (pairs n)"

definition ranked_indices :: "nat list \<Rightarrow> nat list" where
  \<comment> \<open>\<open>sorted(range(len(wins)), key=lambda k: wins[k], reverse=True)\<close>\<close>
  "ranked_indices wins = sorted_reverse (\<lambda>k. wins ! k) [0..<length wins]"

definition total_comparisons :: "comparison list \<Rightarrow> nat \<Rightarrow> nat" where
  "total_comparisons comparisons idx =
     length (filter (\<lambda>c. hypothesis1_idx c = idx \<or> hypothesis2_idx c = idx) comparisons)"

definition ranked_record ::
  "hypothesis list \<Rightarrow> nat list \<Rightarrow> comparison list \<Rightarrow> nat \<times> nat \<Rightarrow> hypothesis" where
  \<comment> \<open>the body of \<open>for rank, idx in enumerate(ranked_indices)\<close>\<close>
  "ranked_record hypotheses wins comparisons = (\<lambda>(rank, idx).
     AList.update ''total_comparisons'' (PInt (int (total_comparisons comparisons idx)))
       (AList.update ''wins'' (PInt (int (wins ! idx)))
         (AList.update ''rank'' (PInt (int rank + 1)) (hypotheses ! idx))))"

definition rank_by_pairwise_comparison :: "responses \<Rightarrow> hypothesis list \<Rightarrow> hypothesis list" where
  \<comment> \<open>\<open>RankingAgent._rank_by_pairwise_comparison\<close>\<close>
  "rank_by_pairwise_comparison resp hypotheses =
     (case run_comparisons resp (length hypotheses) of
        (wins, comparisons) \<Rightarrow>
          map (ranked_record hypotheses wins comparisons)
              (enumerate 0 (ranked_indices wins)))"


section \<open>Ranking: the scoring strategy\<close>

definition criteria :: "string list" where
  "criteria = [''novelty'', ''plausibility'', ''relevance'', ''testability'', ''potential impact'']"

definition colon_pattern :: "string \<Rightarrow> int \<Rightarrow> string" where
  \<comment> \<open>\<open>f"{criterion}: {i}"\<close>\<close>
  "colon_pattern criterion i = criterion @ '': '' @ str_int i"

definition dash_pattern :: "string \<Rightarrow> int \<Rightarrow> string" where
  \<comment> \<open>\<open>f"{criterion} - {i}"\<close>\<close>
  "dash_pattern criterion i = criterion @ '' - '' @ str_int i"

definition slash_pattern :: "string \<Rightarrow> int \<Rightarrow> string" where
  \<comment> \<open>\<open>f"{criterion}: {i}/10"\<close>\<close>
  "slash_pattern criterion i = criterion @ '': '' @ str_int i @ ''/10''"

definition patterns :: "string \<Rightarrow> string list" where
  \<comment> \<open>the three list comprehensions over \<open>range(1, 11)\<close>, in the order they are appended\<close>
  "patterns criterion =
     map (colon_pattern criterion) [1..10]
     @ map (dash_pattern criterion) [1..10]
     @ map (slash_pattern criterion) [1..10]"

fun first_match :: "string list \<Rightarrow> string \<Rightarrow> string option" where
  \<comment> \<open>\<open>for pattern in patterns: if pattern.lower() in evaluation.lower(): ... break\<close>\<close>
  "first_match [] evaluation = None"
| "first_match (pattern # rest) evaluation =
     (if contains (lower pattern) (lower evaluation) then Some pattern
      else first_match rest evaluation)"

definition pattern_score :: "string \<Rightarrow> py_error + int" where
  \<comment> \<open>\<open>int(pattern.split(" ")[-1].replace("/10", ""))\<close>\<close>
  "pattern_score pattern = py_int (replace ''/10'' '''' (last (split_str '' '' pattern)))"

fun extract_loop ::
  "string list \<Rightarrow> string \<Rightarrow> (string \<times> int) list \<Rightarrow> py_error + (string \<times> int) list" where
  "extract_loop [] evaluation scores = Inr scores"
| "extract_loop (criterion # rest) evaluation scores =
     (case first_match (patterns criterion) evaluation of
        None \<Rightarrow> extract_loop rest evaluation scores
      | Some pattern \<Rightarrow>
          (case pattern_score pattern of
             Inl e \<Rightarrow> Inl e
           | Inr score \<Rightarrow> extract_loop rest evaluation (AList.update criterion score scores)))"

definition extract_scores :: "string \<Rightarrow> py_error + (string \<times> int) list" where
  \<comment> \<open>\<open>RankingAgent._extract_scores\<close>\<close>
  "extract_scores evaluation = extract_loop criteria evaluation []"

definition overall_score :: "(string \<times> int) list \<Rightarrow> pyval" where
  \<comment> \<open>\<open>sum(scores.values()) / len(scores) if scores else 0\<close>\<close>
  "overall_score scores =
     (if scores \<noteq> [] then PFloat (of_int (sum_list (map snd scores)) / of_nat (length scores))
      else PInt 0)"

definition scored_record :: "hypothesis \<Rightarrow> string \<Rightarrow> (string \<times> int) list \<Rightarrow> hypothesis" where
  "scored_record h evaluation scores =
     AList.update ''overall_score'' (overall_score scores)
       (AList.update ''scores'' (PDict (map (\<lambda>(k, v). (k, PInt v)) scores))
         (AList.update ''evaluation'' (PStr evaluation) h))"

fun score_loop :: "responses \<Rightarrow> nat \<Rightarrow> hypothesis list \<Rightarrow> py_error + hypothesis list" where
  \<comment> \<open>\<open>for idx, hypothesis in enumerate(hypotheses)\<close>; building the prompt slices the
      review, which raises when the review is not a string or a list\<close>
  "score_loop resp idx [] = Inr []"
| "score_loop resp idx (h # hs) =
     (if (case map_of h ''review'' of None \<Rightarrow> False | Some v \<Rightarrow> \<not> sliceable v)
      then Inl TypeError
      else
        case extract_scores (resp idx) of
          Inl e \<Rightarrow> Inl e
        | Inr scores \<Rightarrow>
            (case score_loop resp (Suc idx) hs of
               Inl e \<Rightarrow> Inl e
             | Inr rest \<Rightarrow> Inr (scored_record h (resp idx) scores # rest)))"

definition score_key :: "hypothesis \<Rightarrow> rat" where
  \<comment> \<open>\<open>h['overall_score']\<close> as the sort compares it\<close>
  "score_key h = (case map_of h ''overall_score'' of
                    Some v \<Rightarrow> (case num_of v of Some r \<Rightarrow> r | None \<Rightarrow> 0)
                  | None \<Rightarrow> 0)"

definition rank_by_scoring :: "responses \<Rightarrow> hypothesis list \<Rightarrow> py_error + hypothesis list" where
  \<comment> \<open>\<open>RankingAgent._rank_by_scoring\<close>\<close>
  "rank_by_scoring resp hypotheses =
     (case score_loop resp 0 hypotheses of
        Inl e \<Rightarrow> Inl e
      | Inr scored_hypotheses \<Rightarrow>
          Inr (map (\<lambda>(rank, h). AList.update ''rank'' (PInt (int rank + 1)) h)
                   (enumerate 0 (sorted_reverse score_key scored_hypotheses))))"

section \<open>Proximity\<close>

definition score_patterns :: "string list" where
  "score_patterns =
     [''overall proximity score: {}'', ''overall proximity score of {}'',
      ''proximity score: {}'', ''overall score: {}'']"

definition format :: "string \<Rightarrow> int \<Rightarrow> string" where
  \<comment> \<open>\<open>pattern.format(i)\<close> for a pattern with the one placeholder \<open>{}\<close>\<close>
  "format pattern i = replace ''{}'' (str_int i) pattern"

fun scan_range :: "string \<Rightarrow> string \<Rightarrow> int list \<Rightarrow> int option" where
  \<comment> \<open>the inner loop \<open>for i in range(1, 11)\<close> with its \<open>break\<close>\<close>
  "scan_range pattern evaluation [] = None"
| "scan_range pattern evaluation (i # rest) =
     (if contains (lower (format pattern i)) (lower evaluation) then Some i
      else scan_range pattern evaluation rest)"

definition scan_pattern :: "string \<Rightarrow> rat \<Rightarrow> string \<Rightarrow> rat" where
  \<comment> \<open>one pass of the outer loop \<open>for pattern in score_patterns\<close>: the \<open>break\<close> leaves
      the inner loop only, so a later pattern that matches assigns the score again\<close>
  "scan_pattern evaluation proximity_score pattern =
     (case scan_range pattern evaluation [1..10] of
        None \<Rightarrow> proximity_score
      | Some i \<Rightarrow> of_int i)"

definition extract_proximity_info :: "string \<Rightarrow> rat \<times> bool" where
  \<comment> \<open>\<open>ProximityAgent._extract_proximity_info\<close>\<close>
  "extract_proximity_info evaluation =
     (let proximity_score = foldl (scan_pattern evaluation) 5 score_patterns;
          is_relevant = (proximity_score \<ge> 6);
          is_relevant =
            (if contains ''not relevant'' (lower evaluation)
                \<or> contains ''irrelevant'' (lower evaluation) then False else is_relevant);
          is_relevant =
            (if contains ''highly relevant'' (lower evaluation)
                \<or> contains ''very relevant'' (lower evaluation) then True else is_relevant)
      in (proximity_score, is_relevant))"

definition rationale_ok :: "pyval \<Rightarrow> bool" where
  \<comment> \<open>whether \<open>r[:300] + "..." if len(r) > 300 else r\<close> evaluates without raising\<close>
  "rationale_ok r =
     (case r of PStr s \<Rightarrow> True | PList xs \<Rightarrow> length xs \<le> 300
        | PDict d \<Rightarrow> length d \<le> 300 | _ \<Rightarrow> False)"

definition evaluated_record :: "hypothesis \<Rightarrow> string \<Rightarrow> hypothesis" where
  "evaluated_record h proximity_evaluation =
     (case extract_proximity_info proximity_evaluation of
        (proximity_score, is_relevant) \<Rightarrow>
          AList.update ''is_relevant'' (PBool is_relevant)
            (AList.update ''proximity_score'' (PFloat proximity_score)
              (AList.update ''proximity_evaluation'' (PStr proximity_evaluation) h)))"

fun proximity_loop :: "responses \<Rightarrow> nat \<Rightarrow> hypothesis list \<Rightarrow> py_error + hypothesis list" where
  \<comment> \<open>\<open>for idx, hypothesis in enumerate(hypotheses)\<close> of \<open>ProximityAgent.process\<close>\<close>
  "proximity_loop resp idx [] = Inr []"
| "proximity_loop resp idx (h # hs) =
     (if map_of h ''statement'' = None then Inl (KeyError ''statement'')
      else if (case map_of h ''rationale'' of None \<Rightarrow> False | Some r \<Rightarrow> \<not> rationale_ok r)
      then Inl TypeError
      else
        case proximity_loop resp (Suc idx) hs of
          Inl e \<Rightarrow> Inl e
        | Inr rest \<Rightarrow> Inr (evaluated_record h (resp idx) # rest))"

definition proximity_process :: "responses \<Rightarrow> hypothesis list \<Rightarrow> py_error + hypothesis list" where
  \<comment> \<open>\<open>ProximityAgent.process\<close>\<close>
  "proximity_process resp hypotheses = proximity_loop resp 0 hypotheses"

fun filter_relevant_hypotheses :: "hypothesis list \<Rightarrow> rat \<Rightarrow> py_error + hypothesis list" where
  \<comment> \<open>\<open>[h for h in evaluated_hypotheses if h.get('proximity_score', 0) >= threshold]\<close>\<close>
  "filter_relevant_hypotheses [] threshold = Inr []"
| "filter_relevant_hypotheses (h # hs) threshold =
     (case (case map_of h ''proximity_score'' of None \<Rightarrow> Some 0 | Some v \<Rightarrow> num_of v) of
        None \<Rightarrow> Inl TypeError
      | Some score \<Rightarrow>
          (case filter_relevant_hypotheses hs threshold of
             Inl e \<Rightarrow> Inl e
           | Inr rest \<Rightarrow> Inr (if score \<ge> threshold then h # rest else rest)))"


section \<open>Evolution\<close>

definition dict_merge :: "hypothesis \<Rightarrow> hypothesis \<Rightarrow> hypothesis" where
  \<comment> \<open>\<open>{**a, **b}\<close>\<close>
  "dict_merge a b = foldl (\<lambda>d (k, v). AList.update k v d) a b"

definition after_colon :: "string \<Rightarrow> pyval" where
  \<comment> \<open>\<open>section.split(':', 1)[1].strip()\<close>, evaluated only where \<open>':' in section\<close>\<close>
  "after_colon s = PStr (strip (split_once '':'' s ! 1))"

definition set_section :: "string \<Rightarrow> hypothesis \<Rightarrow> hypothesis" where
  \<comment> \<open>one pass of \<open>for section in sections\<close> of \<open>_parse_evolved_hypothesis\<close>\<close>
  "set_section s evolved_hypothesis =
     (let lower_section = lower s
      in if contains ''statement'' lower_section \<and> contains '':'' s
         then AList.update ''statement'' (after_colon s) evolved_hypothesis
         else if contains ''rationale'' lower_section \<and> contains '':'' s
         then AList.update ''rationale'' (after_colon s) evolved_hypothesis
         else if contains ''evidence'' lower_section \<and> contains '':'' s
         then AList.update ''evidence'' (after_colon s) evolved_hypothesis
         else if contains ''assumptions'' lower_section \<and> contains '':'' s
         then AList.update ''assumptions'' (after_colon s) evolved_hypothesis
         else if contains ''validation'' lower_section \<and> contains '':'' s
         then AList.update ''validation'' (after_colon s) evolved_hypothesis
         else evolved_hypothesis)"

definition parse_evolved_hypothesis :: "string \<Rightarrow> hypothesis option \<Rightarrow> hypothesis" where
  \<comment> \<open>\<open>EvolutionAgent._parse_evolved_hypothesis\<close>; \<open>if original_hypothesis:\<close> holds for a
      dictionary that is given and not empty\<close>
  "parse_evolved_hypothesis evolution_text original_hypothesis =
     (let blank = [(''statement'', PStr ''''), (''rationale'', PStr ''''),
                   (''evidence'', PStr ''''), (''assumptions'', PStr ''''),
                   (''validation'', PStr ''''), (''evolution_text'', PStr evolution_text)];
          evolved_hypothesis =
            (case original_hypothesis of
               None \<Rightarrow> blank
             | Some original \<Rightarrow>
                 if original = [] then blank
                 else foldl (\<lambda>d key. AList.delete key d) (dict_merge original blank)
                        [''review'', ''assessment_summary'', ''rank'', ''scores'',
                         ''evaluation'', ''overall_score'', ''wins''])
      in foldl (\<lambda>d s. set_section s d) evolved_hypothesis
           (split_str ''\<newline>\<newline>'' evolution_text))"

definition rank_key :: "hypothesis \<Rightarrow> (nat \<times> rat) option" where
  \<comment> \<open>\<open>h.get('rank', float('inf'))\<close> as the sort compares it: \<open>(0, r)\<close> for the number
      \<open>r\<close>, \<open>(1, 0)\<close> for infinity, nothing for a rank that is not a number (the agents
      write integer ranks only; the model raises on any other)\<close>
  "rank_key h = (case map_of h ''rank'' of
                   None \<Rightarrow> Some (1, 0)
                 | Some v \<Rightarrow> map_option (\<lambda>r. (0, r)) (num_of v))"

definition sort_by_rank :: "hypothesis list \<Rightarrow> py_error + hypothesis list" where
  \<comment> \<open>\<open>sorted(ranked_hypotheses, key=lambda h: h.get('rank', float('inf')))\<close>\<close>
  "sort_by_rank hs =
     (if list_all (\<lambda>h. rank_key h \<noteq> None) hs then Inr (sort_key (\<lambda>h. the (rank_key h)) hs)
      else Inl TypeError)"

definition review_ok :: "pyval \<Rightarrow> bool" where
  \<comment> \<open>whether \<open>len(v) > 1000\<close> and then \<open>v[:1000] + "..."\<close> evaluate without raising\<close>
  "review_ok v =
     (case v of PStr s \<Rightarrow> True | PList xs \<Rightarrow> length xs \<le> 1000
        | PDict d \<Rightarrow> length d \<le> 1000 | _ \<Rightarrow> False)"

fun first_missing :: "string list \<Rightarrow> hypothesis \<Rightarrow> string option" where
  \<comment> \<open>the first of the keys, in the order the prompt reads them, that \<open>h\<close> lacks\<close>
  "first_missing [] h = None"
| "first_missing (k # ks) h = (if map_of h k = None then Some k else first_missing ks h)"

definition rank_or_none :: "hypothesis \<Rightarrow> pyval" where
  \<comment> \<open>\<open>h.get('rank')\<close>\<close>
  "rank_or_none h = (case map_of h ''rank'' of None \<Rightarrow> PNone | Some r \<Rightarrow> r)"

definition individual_record :: "hypothesis \<Rightarrow> string \<Rightarrow> hypothesis" where
  "individual_record h evolution_response =
     AList.update ''evolution_type'' (PStr ''individual_refinement'')
       (AList.update ''original_rank'' (rank_or_none h)
          (parse_evolved_hypothesis evolution_response (Some h)))"

fun evolve_loop :: "responses \<Rightarrow> nat \<Rightarrow> hypothesis list \<Rightarrow> py_error + hypothesis list" where
  \<comment> \<open>\<open>for idx, hypothesis in enumerate(top_hypotheses)\<close> of \<open>EvolutionAgent.process\<close>\<close>
  "evolve_loop resp idx [] = Inr []"
| "evolve_loop resp idx (h # hs) =
     (if (case map_of h ''review'' of None \<Rightarrow> False | Some v \<Rightarrow> \<not> review_ok v)
      then Inl TypeError
      else
        case first_missing
               [''statement'', ''rationale'', ''evidence'', ''assumptions'', ''validation''] h of
          Some k \<Rightarrow> Inl (KeyError k)
        | None \<Rightarrow>
            (case evolve_loop resp (Suc idx) hs of
               Inl e \<Rightarrow> Inl e
             | Inr rest \<Rightarrow> Inr (individual_record h (resp idx) # rest)))"

definition combine :: "string \<Rightarrow> hypothesis \<Rightarrow> hypothesis \<Rightarrow> py_error + hypothesis" where
  \<comment> \<open>the combination of the top two; the prompt reads \<open>statement\<close> and slices
      \<open>rationale\<close> of each\<close>
  "combine hybrid_response hyp1 hyp2 =
     (case first_missing [''statement'', ''rationale''] hyp1 of
        Some k \<Rightarrow> Inl (KeyError k)
      | None \<Rightarrow>
          if \<not> sliceable (the (map_of hyp1 ''rationale'')) then Inl TypeError
          else
            (case first_missing [''statement'', ''rationale''] hyp2 of
               Some k \<Rightarrow> Inl (KeyError k)
             | None \<Rightarrow>
                 if \<not> sliceable (the (map_of hyp2 ''rationale'')) then Inl TypeError
                 else
                   Inr (AList.update ''parent_hypotheses''
                          (PList [the (map_of hyp1 ''statement''), the (map_of hyp2 ''statement'')])
                          (AList.update ''evolution_type'' (PStr ''hypothesis_combination'')
                            (AList.update ''original_ranks''
                               (PList [rank_or_none hyp1, rank_or_none hyp2])
                               (parse_evolved_hypothesis hybrid_response None))))))"

definition evolution_process :: "responses \<Rightarrow> hypothesis list \<Rightarrow> py_error + hypothesis list" where
  \<comment> \<open>\<open>EvolutionAgent.process\<close>\<close>
  "evolution_process resp ranked_hypotheses =
     (case sort_by_rank ranked_hypotheses of
        Inl e \<Rightarrow> Inl e
      | Inr sorted_hypotheses \<Rightarrow>
          let top_k = min 3 (length sorted_hypotheses);
              top_hypotheses = take top_k sorted_hypotheses
          in case evolve_loop resp 0 top_hypotheses of
               Inl e \<Rightarrow> Inl e
             | Inr evolved_hypotheses \<Rightarrow>
                 if length top_hypotheses \<ge> 2
                 then (case combine (resp top_k) (top_hypotheses ! 0) (top_hypotheses ! 1) of
                         Inl e \<Rightarrow> Inl e
                       | Inr hybrid_hypothesis \<Rightarrow>
                           Inr (evolved_hypotheses @ [hybrid_hypothesis]))
                 else Inr evolved_hypotheses)"


section \<open>Notions used to state what the extraction finds\<close>

definition score_of :: "string \<Rightarrow> string \<Rightarrow> int option" where
  \<comment> \<open>the least \<open>n\<close> whose colon pattern occurs; failing that, the least whose dash
      pattern occurs\<close>
  "score_of c ev =
     (case find (\<lambda>n. contains (colon_pattern c n) (lower ev)) [1..10] of
        Some n \<Rightarrow> Some n
      | None \<Rightarrow> find (\<lambda>n. contains (dash_pattern c n) (lower ev)) [1..10])"

definition found_scores :: "string \<Rightarrow> (string \<times> int) list" where
  \<comment> \<open>one entry for each criterion that has a score, in the order of \<open>criteria\<close>\<close>
  "found_scores ev =
     map (\<lambda>c. (c, the (score_of c ev))) (filter (\<lambda>c. score_of c ev \<noteq> None) criteria)"

definition final_wins :: "responses \<Rightarrow> nat \<Rightarrow> nat list" where
  \<comment> \<open>the list \<open>wins\<close> when the comparison loop over \<open>n\<close> hypotheses has ended\<close>
  "final_wins resp n = fst (run_comparisons resp n)"

definition final_comparisons :: "responses \<Rightarrow> nat \<Rightarrow> comparison list" where
  \<comment> \<open>the list \<open>comparisons\<close> at that point\<close>
  "final_comparisons resp n = snd (run_comparisons resp n)"

definition final_order :: "responses \<Rightarrow> nat \<Rightarrow> nat list" where
  \<comment> \<open>\<open>ranked_indices\<close>: the input position of the hypothesis at each output position\<close>
  "final_order resp n = ranked_indices (final_wins resp n)"

definition evolvable :: "hypothesis \<Rightarrow> bool" where
  \<comment> \<open>what \<open>EvolutionAgent.process\<close> reads of a hypothesis without raising: the five text
      keys, a review (if any) it can truncate, a rationale it can slice, and a rank (if any)
      that is a number\<close>
  "evolvable h \<longleftrightarrow>
     list_all (\<lambda>k. map_of h k \<noteq> None)
       [''statement'', ''rationale'', ''evidence'', ''assumptions'', ''validation'']
     \<and> (case map_of h ''review'' of None \<Rightarrow> True | Some v \<Rightarrow> review_ok v)
     \<and> (case map_of h ''rationale'' of None \<Rightarrow> False | Some v \<Rightarrow> sliceable v)
     \<and> rank_key h \<noteq> None"

section \<open>Facts about substrings\<close>

lemma startswith_iff: "startswith s p \<longleftrightarrow> (\<exists>b. s = p @ b)"
  by (induction s p rule: startswith.induct) auto

lemma contains_iff: "contains pat s \<longleftrightarrow> (\<exists>a b. s = a @ pat @ b)"
proof (induction s)
  case Nil
  then show ?case by auto
next
  case (Cons c cs)
  show ?case
  proof
    assume "contains pat (c # cs)"
    then consider "startswith (c # cs) pat" | "contains pat cs" by auto
    then show "\<exists>a b. c # cs = a @ pat @ b"
    proof cases
      case 1
      then obtain b where "c # cs = pat @ b" using startswith_iff by blast
      then have "c # cs = [] @ pat @ b" by simp
      then show ?thesis by blast
    next
      case 2
      then obtain a b where "cs = a @ pat @ b" using Cons.IH by blast
      then have "c # cs = (c # a) @ pat @ b" by simp
      then show ?thesis by blast
    qed
  next
    assume "\<exists>a b. c # cs = a @ pat @ b"
    then obtain a b where ab: "c # cs = a @ pat @ b" by blast
    show "contains pat (c # cs)"
    proof (cases a)
      case Nil
      then have "startswith (c # cs) pat" using ab startswith_iff by auto
      then show ?thesis by simp
    next
      case (Cons x a')
      then have "cs = a' @ pat @ b" using ab by simp
      then have "contains pat cs" using Cons.IH by blast
      then show ?thesis by simp
    qed
  qed
qed

lemma contains_trans: "contains p q \<Longrightarrow> contains q s \<Longrightarrow> contains p s"
proof -
  assume "contains p q" and "contains q s"
  then obtain a b c d where "q = a @ p @ b" and "s = c @ q @ d"
    unfolding contains_iff by blast
  then have "s = (c @ a) @ p @ (b @ d)" by simp
  then show ?thesis unfolding contains_iff by blast
qed

section \<open>Reflection: the quality estimate\<close>

lemma length_filter_card:
  "distinct xs \<Longrightarrow> length (filter P xs) = card {x \<in> set xs. P x}"
proof -
  assume d: "distinct xs"
  have "{x \<in> set xs. P x} = {x. P x} \<inter> set xs" by auto
  then show ?thesis using distinct_length_filter [OF d, of P] by simp
qed

lemma positive_count_card:
  "positive_count review = card {t \<in> set positive_terms. contains t (lower review)}"
  unfolding positive_count_def
  by (rule length_filter_card) (simp add: positive_terms_def)

lemma negative_count_card:
  "negative_count review = card {t \<in> set negative_terms. contains t (lower review)}"
  unfolding negative_count_def
  by (rule length_filter_card) (simp add: negative_terms_def)

lemma no_term_iff:
  "positive_count review + negative_count review = 0 \<longleftrightarrow>
   (\<forall>t \<in> set positive_terms \<union> set negative_terms. \<not> contains t (lower review))"
  unfolding positive_count_def negative_count_def
  by (auto simp: filter_empty_conv)

text \<open>
  C8: the quality estimate of a review is the number of positive lexicon terms that occur
  in its lower-cased text divided by the number of positive and negative terms that occur,
  and it is exactly one half when no lexicon term occurs. A term counts once, however
  often it occurs.
\<close>

theorem estimate_score_ratio:
  "estimate_score review =
     (if \<forall>t \<in> set positive_terms \<union> set negative_terms. \<not> contains t (lower review)
      then 1 / 2
      else of_nat (card {t \<in> set positive_terms. contains t (lower review)})
           / of_nat (card {t \<in> set positive_terms. contains t (lower review)}
                     + card {t \<in> set negative_terms. contains t (lower review)}))"
proof -
  have "estimate_score review =
          (if positive_count review + negative_count review = 0 then 1 / 2
           else of_nat (positive_count review)
                / of_nat (positive_count review + negative_count review))"
    by (simp add: estimate_score_def Let_def)
  then show ?thesis
    unfolding no_term_iff
    by (simp only: positive_count_card negative_count_card)
qed

theorem estimate_score_ratio_witness:
  "estimate_score ''No lexicon term occurs here.'' = 1 / 2
   \<and> estimate_score ''strong but weak and flawed'' = 1 / 3"
proof -
  have a: "estimate_score ''No lexicon term occurs here.'' = 1 / 2"
    using estimate_score_ratio [of "''No lexicon term occurs here.''"]
    by (simp add: positive_terms_def negative_terms_def lower_def lower_char_def)
  have p: "positive_count ''strong but weak and flawed'' = 1"
    by (simp add: positive_count_def positive_terms_def lower_def lower_char_def)
  have n: "negative_count ''strong but weak and flawed'' = 2"
    by (simp add: negative_count_def negative_terms_def lower_def lower_char_def)
  have c: "contains ''strong'' (lower ''strong but weak and flawed'')"
    by (simp add: lower_def lower_char_def)
  have "\<not> (\<forall>t \<in> set positive_terms \<union> set negative_terms.
              \<not> contains t (lower ''strong but weak and flawed''))"
    using c by (auto simp: positive_terms_def)
  with estimate_score_ratio [of "''strong but weak and flawed''"]
  have "estimate_score ''strong but weak and flawed'' =
          of_nat (positive_count ''strong but weak and flawed'')
          / of_nat (positive_count ''strong but weak and flawed''
                    + negative_count ''strong but weak and flawed'')"
    by (simp only: positive_count_card negative_count_card if_False)
  then have b: "estimate_score ''strong but weak and flawed'' = 1 / 3"
    by (simp add: p n)
  from a b show ?thesis by (intro conjI)
qed

section \<open>Synthesis: the title\<close>

lemma scan_title_none:
  "\<forall>l \<in> set ls. \<not> (strip l \<noteq> [] \<and> \<not> startswith l ''#'' \<and> length l < 100)
   \<Longrightarrow> scan_title ls = ''Research Report''"
  by (induction ls) auto

lemma scan_title_some:
  "\<exists>l \<in> set ls. strip l \<noteq> [] \<and> \<not> startswith l ''#'' \<and> length l < 100
   \<Longrightarrow> \<exists>i < length ls.
           (strip (ls ! i) \<noteq> [] \<and> \<not> startswith (ls ! i) ''#'' \<and> length (ls ! i) < 100)
           \<and> (\<forall>j < i. \<not> (strip (ls ! j) \<noteq> [] \<and> \<not> startswith (ls ! j) ''#''
                              \<and> length (ls ! j) < 100))
           \<and> scan_title ls = strip (ls ! i)"
proof (induction ls)
  case Nil
  then show ?case by simp
next
  case (Cons l ls)
  let ?c = "\<lambda>l. strip l \<noteq> [] \<and> \<not> startswith l ''#'' \<and> length l < 100"
  show ?case
  proof (cases "?c l")
    case True
    then have "0 < length (l # ls) \<and> ?c ((l # ls) ! 0) \<and> (\<forall>j < 0. \<not> ?c ((l # ls) ! j))
               \<and> scan_title (l # ls) = strip ((l # ls) ! 0)"
      by simp
    then show ?thesis by blast
  next
    case False
    then have st: "scan_title (l # ls) = scan_title ls" by auto
    from False Cons.prems have "\<exists>x \<in> set ls. ?c x" by auto
    then obtain i where i: "i < length ls" "?c (ls ! i)" "\<forall>j < i. \<not> ?c (ls ! j)"
        "scan_title ls = strip (ls ! i)"
      using Cons.IH by blast
    have "\<forall>j < Suc i. \<not> ?c ((l # ls) ! j)"
    proof (intro allI impI)
      fix j assume "j < Suc i"
      then show "\<not> ?c ((l # ls) ! j)" using False i(3) by (cases j) auto
    qed
    then have "Suc i < length (l # ls) \<and> ?c ((l # ls) ! Suc i)
               \<and> (\<forall>j < Suc i. \<not> ?c ((l # ls) ! j))
               \<and> scan_title (l # ls) = strip ((l # ls) ! Suc i)"
      using i st by simp
    then show ?thesis by blast
  qed
qed

text \<open>
  C9, as the code has it: among the first ten lines of the report, the title is the
  stripped text of the first line that is not blank, does not start with \<open>#\<close> and is
  under 100 characters long; when no line qualifies it is \<open>Research Report\<close>.
\<close>

theorem extract_title_first_candidate:
  "(if \<exists>l \<in> set (take 10 (split_str ''\<newline>'' report)).
         strip l \<noteq> [] \<and> \<not> startswith l ''#'' \<and> length l < 100
    then \<exists>i < length (take 10 (split_str ''\<newline>'' report)).
           (strip (take 10 (split_str ''\<newline>'' report) ! i) \<noteq> []
            \<and> \<not> startswith (take 10 (split_str ''\<newline>'' report) ! i) ''#''
            \<and> length (take 10 (split_str ''\<newline>'' report) ! i) < 100)
           \<and> (\<forall>j < i. \<not> (strip (take 10 (split_str ''\<newline>'' report) ! j) \<noteq> []
                     \<and> \<not> startswith (take 10 (split_str ''\<newline>'' report) ! j) ''#''
                     \<and> length (take 10 (split_str ''\<newline>'' report) ! j) < 100))
           \<and> extract_title report = strip (take 10 (split_str ''\<newline>'' report) ! i)
    else extract_title report = ''Research Report'')"
proof (cases "\<exists>l \<in> set (take 10 (split_str ''\<newline>'' report)).
         strip l \<noteq> [] \<and> \<not> startswith l ''#'' \<and> length l < 100")
  case True
  from scan_title_some [OF True] True show ?thesis
    unfolding extract_title_def by (simp only: if_True)
next
  case False
  then have "\<forall>l \<in> set (take 10 (split_str ''\<newline>'' report)).
         \<not> (strip l \<noteq> [] \<and> \<not> startswith l ''#'' \<and> length l < 100)"
    by blast
  from scan_title_none [OF this] False show ?thesis
    unfolding extract_title_def by (simp only: if_False)
qed

theorem extract_title_first_candidate_witness:
  "(\<exists>l \<in> set (take 10 (split_str ''\<newline>'' ''\<newline># Heading\<newline>  My Title \<newline>Body text'')).
         strip l \<noteq> [] \<and> \<not> startswith l ''#'' \<and> length l < 100)
   \<and> extract_title ''\<newline># Heading\<newline>  My Title \<newline>Body text'' = ''My Title''"
  using extract_title_first_candidate [of "''\<newline># Heading\<newline>  My Title \<newline>Body text''"]
  by (simp add: extract_title_def strip_def is_space_def)

text \<open>
  The claim as worded fails on a report that opens with a heading line: the first
  non-empty line under 100 characters is the heading, and the code skips it.
\<close>

theorem extract_title_counterexample:
  "extract_title ''# Heading\<newline>My Title'' = ''My Title''
   \<and> spec_title ''# Heading\<newline>My Title'' = ''# Heading''"
  by (simp add: extract_title_def spec_title_def strip_def is_space_def)

section \<open>Generation: the parser\<close>

lemma parse_section_keyed:
  "map_of cur ''hypothesis'' \<noteq> None \<Longrightarrow>
   fst (parse_section (hs, cur) s) = hs
   \<and> map_of (snd (parse_section (hs, cur) s)) ''hypothesis'' \<noteq> None"
  by (auto simp: update_conv')

lemma foldl_parse_keyed:
  "map_of cur ''hypothesis'' \<noteq> None \<Longrightarrow>
   fst (foldl parse_section (hs, cur) secs) = hs
   \<and> map_of (snd (foldl parse_section (hs, cur) secs)) ''hypothesis'' \<noteq> None"
proof (induction secs arbitrary: cur)
  case Nil
  then show ?case by simp
next
  case (Cons s secs)
  obtain hs' cur' where st: "parse_section (hs, cur) s = (hs', cur')"
    by (cases "parse_section (hs, cur) s")
  with parse_section_keyed [OF Cons.prems, of hs s]
  have "hs' = hs" and "map_of cur' ''hypothesis'' \<noteq> None" by simp_all
  with Cons.IH [of cur'] st show ?case by simp
qed

lemma foldl_parse_unkeyed:
  "map_of cur ''hypothesis'' = None \<Longrightarrow>
   (fst (foldl parse_section ([], cur) secs) = []
    \<and> map_of (snd (foldl parse_section ([], cur) secs)) ''hypothesis'' = None)
   \<or> (length (fst (foldl parse_section ([], cur) secs)) \<le> 1
      \<and> (\<forall>h \<in> set (fst (foldl parse_section ([], cur) secs)). map_of h ''hypothesis'' = None)
      \<and> map_of (snd (foldl parse_section ([], cur) secs)) ''hypothesis'' \<noteq> None)"
proof (induction secs arbitrary: cur)
  case Nil
  then show ?case by simp
next
  case (Cons s secs)
  show ?case
  proof (cases "contains ''Hypothesis'' s")
    case True
    define hs1 where "hs1 = (if cur \<noteq> [] then [cur] else [])"
    define cur1 where "cur1 = [(''hypothesis'', section_body s), (''rationale'', ''''),
        (''evidence'', ''''), (''assumptions'', ''''), (''validation'', '''')]"
    have st: "parse_section ([], cur) s = (hs1, cur1)"
      using True Cons.prems by (simp add: hs1_def cur1_def)
    have k: "map_of cur1 ''hypothesis'' \<noteq> None" by (simp add: cur1_def)
    from foldl_parse_keyed [OF k, of hs1 secs]
    have "fst (foldl parse_section (hs1, cur1) secs) = hs1"
      and "map_of (snd (foldl parse_section (hs1, cur1) secs)) ''hypothesis'' \<noteq> None"
      by simp_all
    moreover have "length hs1 \<le> 1" and "\<forall>h \<in> set hs1. map_of h ''hypothesis'' = None"
      using Cons.prems by (simp_all add: hs1_def)
    ultimately show ?thesis using st by simp
  next
    case False
    have "fst (parse_section ([], cur) s) = []
          \<and> map_of (snd (parse_section ([], cur) s)) ''hypothesis'' = None"
      using False Cons.prems by (simp add: update_conv')
    then obtain cur' where st: "parse_section ([], cur) s = ([], cur')"
      and u: "map_of cur' ''hypothesis'' = None"
      by (cases "parse_section ([], cur) s") auto
    from Cons.IH [OF u] st show ?thesis by simp
  qed
qed

text \<open>
  C10, as the code has it: the parser returns at most two records, at most one of which
  has the key \<open>hypothesis\<close>; and once the record under construction has that key,
  no later section starts a new record or removes the key.
\<close>

theorem parse_hypotheses_at_most_one_keyed:
  "length (parse_hypotheses response) \<le> 2
   \<and> length (filter (\<lambda>h. map_of h ''hypothesis'' \<noteq> None) (parse_hypotheses response)) \<le> 1
   \<and> (map_of current ''hypothesis'' \<noteq> None \<longrightarrow>
        fst (foldl parse_section (done, current) sections) = done
        \<and> map_of (snd (foldl parse_section (done, current) sections)) ''hypothesis'' \<noteq> None)"
proof -
  let ?st = "foldl parse_section ([], []) (split_str ''\<newline>\<newline>'' response)"
  have ph: "parse_hypotheses response = (if snd ?st \<noteq> [] then fst ?st @ [snd ?st] else fst ?st)"
    by (simp add: parse_hypotheses_def split: prod.splits)
  have "map_of ([] :: sdict) ''hypothesis'' = None" by simp
  from foldl_parse_unkeyed [OF this, of "split_str ''\<newline>\<newline>'' response"]
  have "(fst ?st = [] \<and> map_of (snd ?st) ''hypothesis'' = None)
    \<or> (length (fst ?st) \<le> 1 \<and> (\<forall>h \<in> set (fst ?st). map_of h ''hypothesis'' = None)
        \<and> map_of (snd ?st) ''hypothesis'' \<noteq> None)" .
  then have "length (parse_hypotheses response) \<le> 2
   \<and> length (filter (\<lambda>h. map_of h ''hypothesis'' \<noteq> None) (parse_hypotheses response)) \<le> 1"
  proof (elim disjE conjE)
    assume "fst ?st = []" and "map_of (snd ?st) ''hypothesis'' = None"
    then show ?thesis unfolding ph by simp
  next
    assume b: "length (fst ?st) \<le> 1" "\<forall>h \<in> set (fst ?st). map_of h ''hypothesis'' = None"
          "map_of (snd ?st) ''hypothesis'' \<noteq> None"
    from b(2) have "filter (\<lambda>h. map_of h ''hypothesis'' \<noteq> None) (fst ?st) = []"
      by (simp add: filter_empty_conv)
    with b show ?thesis unfolding ph by simp
  qed
  then show ?thesis using foldl_parse_keyed [of current "done" sections] by blast
qed

theorem parse_hypotheses_at_most_one_keyed_witness:
  "length (parse_hypotheses ''Hypothesis 1:\<newline>a\<newline>\<newline>Rationale:\<newline>b\<newline>\<newline>Hypothesis 2:\<newline>c'') \<le> 2
   \<and> map_of [(''hypothesis'', ''a'')] ''hypothesis'' \<noteq> None
   \<and> fst (foldl parse_section ([], [(''hypothesis'', ''a'')]) [''Hypothesis 2:\<newline>c'']) = []"
  using parse_hypotheses_at_most_one_keyed
    [of "''Hypothesis 1:\<newline>a\<newline>\<newline>Rationale:\<newline>b\<newline>\<newline>Hypothesis 2:\<newline>c''"
        "[(''hypothesis'', ''a'')]" "[]" "[''Hypothesis 2:\<newline>c'']"]
  by simp

text \<open>
  The claim as worded fails when a Rationale section comes before the first Hypothesis
  section: the record built from it is appended when the Hypothesis section arrives.
\<close>

theorem parse_hypotheses_counterexample:
  "parse_hypotheses ''Rationale: x\<newline>\<newline>Hypothesis 1: y'' =
     [[(''rationale'', ''Rationale: x'')],
      [(''hypothesis'', ''Hypothesis 1: y''), (''rationale'', ''''), (''evidence'', ''''),
       (''assumptions'', ''''), (''validation'', '''')]]
   \<and> \<not> length (parse_hypotheses ''Rationale: x\<newline>\<newline>Hypothesis 1: y'') \<le> 1"
  by (simp add: parse_hypotheses_def section_body_def)

section \<open>Evaluating the string functions on literals\<close>

text \<open>
  The defining equations evaluate both sides of a conjunction or disjunction; these forms
  stop at the first character that differs, which keeps evaluation on literals short.
\<close>

lemma startswith_if:
  "startswith (c # cs) (p # ps) = (if c = p then startswith cs ps else False)"
  by simp

lemma contains_if:
  "contains pat (c # cs) = (if startswith (c # cs) pat then True else contains pat cs)"
  by simp

declare startswith.simps(3) [simp del] contains.simps(2) [simp del]
declare startswith_if [simp] contains_if [simp]

lemma lower_Nil [simp]: "lower [] = []"
  by (simp add: lower_def)

lemma lower_Cons [simp]: "lower (c # cs) = lower_char c # lower cs"
  by (simp add: lower_def)

lemma lower_append: "lower (a @ b) = lower a @ lower b"
  by (simp add: lower_def)

lemma lower_char_letters [simp]:
  "lower_char CHR ''a'' = CHR ''a''" "lower_char CHR ''b'' = CHR ''b''"
  "lower_char CHR ''c'' = CHR ''c''" "lower_char CHR ''d'' = CHR ''d''"
  "lower_char CHR ''e'' = CHR ''e''" "lower_char CHR ''f'' = CHR ''f''"
  "lower_char CHR ''g'' = CHR ''g''" "lower_char CHR ''h'' = CHR ''h''"
  "lower_char CHR ''i'' = CHR ''i''" "lower_char CHR ''j'' = CHR ''j''"
  "lower_char CHR ''k'' = CHR ''k''" "lower_char CHR ''l'' = CHR ''l''"
  "lower_char CHR ''m'' = CHR ''m''" "lower_char CHR ''n'' = CHR ''n''"
  "lower_char CHR ''o'' = CHR ''o''" "lower_char CHR ''p'' = CHR ''p''"
  "lower_char CHR ''q'' = CHR ''q''" "lower_char CHR ''r'' = CHR ''r''"
  "lower_char CHR ''s'' = CHR ''s''" "lower_char CHR ''t'' = CHR ''t''"
  "lower_char CHR ''u'' = CHR ''u''" "lower_char CHR ''v'' = CHR ''v''"
  "lower_char CHR ''w'' = CHR ''w''" "lower_char CHR ''x'' = CHR ''x''"
  "lower_char CHR ''y'' = CHR ''y''" "lower_char CHR ''z'' = CHR ''z''"
  "lower_char CHR ''A'' = CHR ''a''" "lower_char CHR ''B'' = CHR ''b''"
  "lower_char CHR ''C'' = CHR ''c''" "lower_char CHR ''D'' = CHR ''d''"
  "lower_char CHR ''E'' = CHR ''e''" "lower_char CHR ''F'' = CHR ''f''"
  "lower_char CHR ''G'' = CHR ''g''" "lower_char CHR ''H'' = CHR ''h''"
  "lower_char CHR ''I'' = CHR ''i''" "lower_char CHR ''J'' = CHR ''j''"
  "lower_char CHR ''K'' = CHR ''k''" "lower_char CHR ''L'' = CHR ''l''"
  "lower_char CHR ''M'' = CHR ''m''" "lower_char CHR ''N'' = CHR ''n''"
  "lower_char CHR ''O'' = CHR ''o''" "lower_char CHR ''P'' = CHR ''p''"
  "lower_char CHR ''Q'' = CHR ''q''" "lower_char CHR ''R'' = CHR ''r''"
  "lower_char CHR ''S'' = CHR ''s''" "lower_char CHR ''T'' = CHR ''t''"
  "lower_char CHR ''U'' = CHR ''u''" "lower_char CHR ''V'' = CHR ''v''"
  "lower_char CHR ''W'' = CHR ''w''" "lower_char CHR ''X'' = CHR ''x''"
  "lower_char CHR ''Y'' = CHR ''y''" "lower_char CHR ''Z'' = CHR ''z''"
  by (simp_all add: lower_char_def)

lemma lower_char_others [simp]:
  "lower_char CHR '' '' = CHR '' ''" "lower_char CHR '':'' = CHR '':''"
  "lower_char CHR ''.'' = CHR ''.''" "lower_char CHR '','' = CHR '',''"
  "lower_char CHR ''-'' = CHR ''-''" "lower_char CHR ''/'' = CHR ''/''"
  "lower_char CHR ''0'' = CHR ''0''" "lower_char CHR ''1'' = CHR ''1''"
  "lower_char CHR ''2'' = CHR ''2''" "lower_char CHR ''3'' = CHR ''3''"
  "lower_char CHR ''4'' = CHR ''4''" "lower_char CHR ''5'' = CHR ''5''"
  "lower_char CHR ''6'' = CHR ''6''" "lower_char CHR ''7'' = CHR ''7''"
  "lower_char CHR ''8'' = CHR ''8''" "lower_char CHR ''9'' = CHR ''9''"
  by (simp_all add: lower_char_def)

lemma upto_1_10: "[1..10] = [1, 2, 3, 4, 5, 6, 7, 8, 9, 10 :: int]"
  by (simp add: upto.simps)

lemma str_int_small:
  "str_int 1 = ''1''" "str_int 2 = ''2''" "str_int 3 = ''3''" "str_int 4 = ''4''"
  "str_int 5 = ''5''" "str_int 6 = ''6''" "str_int 7 = ''7''" "str_int 8 = ''8''"
  "str_int 9 = ''9''" "str_int 10 = ''10''"
  by (simp_all add: str_int_def str_nat.simps digit_char_def)

lemma contains_prefix: "contains (a @ b) s \<Longrightarrow> contains a s"
proof -
  assume "contains (a @ b) s"
  then obtain x y where "s = x @ (a @ b) @ y" unfolding contains_iff by blast
  then have "s = x @ a @ (b @ y)" by simp
  then show ?thesis unfolding contains_iff by blast
qed


section \<open>Proximity: the score scan and the relevance flag\<close>

lemma format_score_patterns:
  "format ''overall proximity score: {}'' i = ''overall proximity score: '' @ str_int i"
  "format ''overall proximity score of {}'' i = ''overall proximity score of '' @ str_int i"
  "format ''proximity score: {}'' i = ''proximity score: '' @ str_int i"
  "format ''overall score: {}'' i = ''overall score: '' @ str_int i"
  by (simp_all add: format_def)

lemma scan_range_None:
  "\<forall>i \<in> set is. \<not> contains (lower (format p i)) (lower ev) \<Longrightarrow> scan_range p ev is = None"
  by (induction "is") auto

lemma no_proximity_pattern:
  assumes "\<not> contains ''proximity score'' (lower ev)"
  shows "scan_range ''overall proximity score: {}'' ev is = None"
    and "scan_range ''overall proximity score of {}'' ev is = None"
    and "scan_range ''proximity score: {}'' ev is = None"
proof -
  have a: "\<not> contains (''overall proximity score: '' @ lower (str_int i)) (lower ev)" for i
  proof
    assume "contains (''overall proximity score: '' @ lower (str_int i)) (lower ev)"
    then have "contains ''overall proximity score: '' (lower ev)" by (rule contains_prefix)
    moreover have "contains ''proximity score'' ''overall proximity score: ''" by simp
    ultimately show False using assms contains_trans by blast
  qed
  have b: "\<not> contains (''overall proximity score of '' @ lower (str_int i)) (lower ev)" for i
  proof
    assume "contains (''overall proximity score of '' @ lower (str_int i)) (lower ev)"
    then have "contains ''overall proximity score of '' (lower ev)" by (rule contains_prefix)
    moreover have "contains ''proximity score'' ''overall proximity score of ''" by simp
    ultimately show False using assms contains_trans by blast
  qed
  have c: "\<not> contains (''proximity score: '' @ lower (str_int i)) (lower ev)" for i
  proof
    assume "contains (''proximity score: '' @ lower (str_int i)) (lower ev)"
    then have "contains ''proximity score: '' (lower ev)" by (rule contains_prefix)
    moreover have "contains ''proximity score'' ''proximity score: ''" by simp
    ultimately show False using assms contains_trans by blast
  qed
  show "scan_range ''overall proximity score: {}'' ev is = None"
    by (rule scan_range_None) (use a in \<open>simp add: format_score_patterns lower_append\<close>)
  show "scan_range ''overall proximity score of {}'' ev is = None"
    by (rule scan_range_None) (use b in \<open>simp add: format_score_patterns lower_append\<close>)
  show "scan_range ''proximity score: {}'' ev is = None"
    by (rule scan_range_None) (use c in \<open>simp add: format_score_patterns lower_append\<close>)
qed

lemma overall_score_only:
  assumes "\<not> contains ''proximity score'' (lower ev)"
  shows "fst (extract_proximity_info ev) =
           (case scan_range ''overall score: {}'' ev [1..10] of
              None \<Rightarrow> 5 | Some i \<Rightarrow> of_int i)"
  by (simp add: extract_proximity_info_def Let_def score_patterns_def scan_pattern_def
        no_proximity_pattern [OF assms])

lemma is_relevant_eq:
  "snd (extract_proximity_info evaluation) =
     (if contains ''highly relevant'' (lower evaluation)
         \<or> contains ''very relevant'' (lower evaluation) then True
      else if contains ''not relevant'' (lower evaluation)
         \<or> contains ''irrelevant'' (lower evaluation) then False
      else fst (extract_proximity_info evaluation) \<ge> 6)"
  by (simp add: extract_proximity_info_def Let_def)

text \<open>
  C4, as the code has it: the relevance flag is true when the text has a "highly relevant"
  or "very relevant" phrase, whatever the score and whatever else the text says; otherwise
  it is false when the text has a "not relevant" or "irrelevant" phrase, whatever the
  score; and only otherwise it is the threshold rule, score at least 6.
\<close>

theorem is_relevant_override_order:
  "snd (extract_proximity_info evaluation) =
     (if contains ''highly relevant'' (lower evaluation)
         \<or> contains ''very relevant'' (lower evaluation) then True
      else if contains ''not relevant'' (lower evaluation)
         \<or> contains ''irrelevant'' (lower evaluation) then False
      else fst (extract_proximity_info evaluation) \<ge> 6)"
  by (rule is_relevant_eq)

lemma score_8_not_relevant:
  "fst (extract_proximity_info ''Overall score: 8. Not relevant.'') = 8"
  by (subst overall_score_only)
     (simp_all add: upto_1_10 format_score_patterns str_int_small)

lemma score_3_highly_relevant:
  "fst (extract_proximity_info ''Overall score: 3. Highly relevant.'') = 3"
  by (subst overall_score_only)
     (simp_all add: upto_1_10 format_score_patterns str_int_small)

theorem is_relevant_override_order_witness:
  "fst (extract_proximity_info ''Overall score: 8. Not relevant.'') = 8
   \<and> contains ''not relevant'' (lower ''Overall score: 8. Not relevant.'')
   \<and> snd (extract_proximity_info ''Overall score: 8. Not relevant.'') = False
   \<and> fst (extract_proximity_info ''Overall score: 3. Highly relevant.'') = 3
   \<and> contains ''highly relevant'' (lower ''Overall score: 3. Highly relevant.'')
   \<and> snd (extract_proximity_info ''Overall score: 3. Highly relevant.'') = True"
  using is_relevant_override_order [of "''Overall score: 8. Not relevant.''"]
        is_relevant_override_order [of "''Overall score: 3. Highly relevant.''"]
  by (simp add: score_8_not_relevant score_3_highly_relevant)

text \<open>
  The claim as worded fails on a text that has both kinds of phrase: the score is 8, the
  text contains "not relevant", and the flag is true, because the positive override is
  applied last.
\<close>

lemma score_8_both_phrases:
  "fst (extract_proximity_info ''Overall score: 8. Not relevant to A, highly relevant to B.'') = 8"
  by (subst overall_score_only)
     (simp_all add: upto_1_10 format_score_patterns str_int_small)

theorem is_relevant_counterexample:
  "fst (extract_proximity_info
          ''Overall score: 8. Not relevant to A, highly relevant to B.'') = 8
   \<and> contains ''not relevant''
        (lower ''Overall score: 8. Not relevant to A, highly relevant to B.'')
   \<and> snd (extract_proximity_info
          ''Overall score: 8. Not relevant to A, highly relevant to B.'') = True"
  by (simp add: score_8_both_phrases is_relevant_eq)

section \<open>Proximity: evaluation keeps every record, the filter goes by score\<close>

lemma proximity_loop_ok:
  "\<forall>h \<in> set hs. map_of h ''statement'' \<noteq> None
                  \<and> (\<forall>r. map_of h ''rationale'' = Some r \<longrightarrow> rationale_ok r)
   \<Longrightarrow> proximity_loop resp idx hs =
         Inr (map (\<lambda>(i, h). evaluated_record h (resp i)) (enumerate idx hs))"
  by (induction hs arbitrary: idx) (auto split: option.splits)

lemma evaluated_record_fields:
  "map_of (evaluated_record h e) ''proximity_score'' =
     Some (PFloat (fst (extract_proximity_info e)))"
  "map_of (evaluated_record h e) ''is_relevant'' =
     Some (PBool (snd (extract_proximity_info e)))"
  by (simp_all add: evaluated_record_def update_conv' split: prod.splits)

lemma filter_by_score:
  "\<forall>h \<in> set hs. \<exists>s. map_of h ''proximity_score'' = Some (PFloat s)
   \<Longrightarrow> filter_relevant_hypotheses hs t =
         Inr (filter (\<lambda>h. \<exists>s. map_of h ''proximity_score'' = Some (PFloat s) \<and> s \<ge> t) hs)"
  by (induction hs) (auto simp: num_of_def)

lemma filter_by_number:
  "\<forall>h \<in> set hs. \<forall>v. map_of h ''proximity_score'' = Some v \<longrightarrow> num_of v \<noteq> None
   \<Longrightarrow> filter_relevant_hypotheses hs t =
         Inr (filter (\<lambda>h. case map_of h ''proximity_score'' of
                             None \<Rightarrow> 0 \<ge> t
                           | Some v \<Rightarrow> (\<exists>s. num_of v = Some s \<and> s \<ge> t)) hs)"
  by (induction hs) (auto split: option.splits)

text \<open>
  C7, as the code has it: when every input hypothesis has a \<open>statement\<close> and its
  \<open>rationale\<close>, if it has one, is a value that the prompt can measure and truncate (a
  string, or a list or dictionary of at most 300 entries), the proximity evaluation
  returns one evaluated record per input hypothesis, in order, each the input record with
  the evaluation text, the extracted score and the relevance flag added. The filter is a
  separate function of a list of records and a threshold. Of any list in which every
  \<open>proximity_score\<close> that is present is a number, it returns, in order, exactly the
  records whose score, taken as 0 when the key is absent, is at least the threshold,
  whatever their relevance flag; so it does of the list the evaluation returned, where
  every record has a score.
\<close>

theorem proximity_keeps_all_filter_by_score:
  assumes "\<forall>h \<in> set hypotheses. map_of h ''statement'' \<noteq> None
                  \<and> (\<forall>r. map_of h ''rationale'' = Some r \<longrightarrow> rationale_ok r)"
  shows "\<exists>evaluated.
           proximity_process resp hypotheses = Inr evaluated
           \<and> length evaluated = length hypotheses
           \<and> (\<forall>i < length hypotheses.
                 evaluated ! i = evaluated_record (hypotheses ! i) (resp i)
                 \<and> map_of (evaluated ! i) ''proximity_score'' =
                     Some (PFloat (fst (extract_proximity_info (resp i))))
                 \<and> map_of (evaluated ! i) ''is_relevant'' =
                     Some (PBool (snd (extract_proximity_info (resp i)))))
           \<and> filter_relevant_hypotheses evaluated threshold =
               Inr (filter (\<lambda>h. \<exists>s. map_of h ''proximity_score'' = Some (PFloat s)
                                     \<and> s \<ge> threshold) evaluated)
           \<and> (\<forall>records t.
                 (\<forall>h \<in> set records. \<forall>v. map_of h ''proximity_score'' = Some v
                                          \<longrightarrow> num_of v \<noteq> None)
                 \<longrightarrow> filter_relevant_hypotheses records t =
                       Inr (filter (\<lambda>h. case map_of h ''proximity_score'' of
                                           None \<Rightarrow> 0 \<ge> t
                                         | Some v \<Rightarrow> (\<exists>s. num_of v = Some s \<and> s \<ge> t))
                              records))"
proof -
  define evaluated where
    "evaluated = map (\<lambda>(i, h). evaluated_record h (resp i)) (enumerate 0 hypotheses)"
  have p: "proximity_process resp hypotheses = Inr evaluated"
    unfolding proximity_process_def evaluated_def by (rule proximity_loop_ok [OF assms])
  have len: "length evaluated = length hypotheses" by (simp add: evaluated_def)
  have nth: "evaluated ! i = evaluated_record (hypotheses ! i) (resp i)"
    if "i < length hypotheses" for i
    using that by (simp add: evaluated_def nth_enumerate_eq)
  have fields: "\<forall>i < length hypotheses.
                 evaluated ! i = evaluated_record (hypotheses ! i) (resp i)
                 \<and> map_of (evaluated ! i) ''proximity_score'' =
                     Some (PFloat (fst (extract_proximity_info (resp i))))
                 \<and> map_of (evaluated ! i) ''is_relevant'' =
                     Some (PBool (snd (extract_proximity_info (resp i))))"
    using nth by (simp add: evaluated_record_fields)
  have "\<forall>h \<in> set evaluated. \<exists>s. map_of h ''proximity_score'' = Some (PFloat s)"
    by (auto simp: evaluated_def evaluated_record_fields)
  from filter_by_score [OF this]
  have f: "filter_relevant_hypotheses evaluated threshold =
           Inr (filter (\<lambda>h. \<exists>s. map_of h ''proximity_score'' = Some (PFloat s)
                                 \<and> s \<ge> threshold) evaluated)" .
  have g: "\<forall>records t.
             (\<forall>h \<in> set records. \<forall>v. map_of h ''proximity_score'' = Some v
                                      \<longrightarrow> num_of v \<noteq> None)
             \<longrightarrow> filter_relevant_hypotheses records t =
                   Inr (filter (\<lambda>h. case map_of h ''proximity_score'' of
                                       None \<Rightarrow> 0 \<ge> t
                                     | Some v \<Rightarrow> (\<exists>s. num_of v = Some s \<and> s \<ge> t))
                          records)"
    by (intro allI impI filter_by_number)
  from p len fields f g show ?thesis
    by (intro exI [of _ evaluated] conjI)
qed

lemma info_8_not_relevant:
  "extract_proximity_info ''Overall score: 8. Not relevant.'' = (8, False)"
  by (rule prod_eqI) (simp_all add: score_8_not_relevant is_relevant_eq)

lemma info_3_highly_relevant:
  "extract_proximity_info ''Overall score: 3. Highly relevant.'' = (3, True)"
  by (rule prod_eqI) (simp_all add: score_3_highly_relevant is_relevant_eq)

theorem proximity_keeps_all_filter_by_score_witness:
  "list_all (\<lambda>h. map_of h ''statement'' \<noteq> None
                 \<and> (case map_of h ''rationale'' of None \<Rightarrow> True | Some r \<Rightarrow> rationale_ok r))
     [[(''statement'', PStr ''a'')], [(''statement'', PStr ''b''), (''rationale'', PStr ''r'')]]
   \<and> (\<exists>evaluated.
         proximity_process (\<lambda>k. ''Overall score: 8. Not relevant.'')
           [[(''statement'', PStr ''a'')],
            [(''statement'', PStr ''b''), (''rationale'', PStr ''r'')]] = Inr evaluated
         \<and> length evaluated = 2
         \<and> filter_relevant_hypotheses evaluated 5 =
             Inr (filter (\<lambda>h. \<exists>s. map_of h ''proximity_score'' = Some (PFloat s) \<and> s \<ge> 5)
                    evaluated))
   \<and> list_all (\<lambda>h. case map_of h ''proximity_score'' of
                      None \<Rightarrow> True | Some v \<Rightarrow> num_of v \<noteq> None)
       [[(''statement'', PStr ''a'')], [(''statement'', PStr ''b''), (''proximity_score'', PInt 7)]]
   \<and> filter_relevant_hypotheses
       [[(''statement'', PStr ''a'')], [(''statement'', PStr ''b''), (''proximity_score'', PInt 7)]]
       5 = Inr [[(''statement'', PStr ''b''), (''proximity_score'', PInt 7)]]
   \<and> filter_relevant_hypotheses
       [[(''statement'', PStr ''a'')], [(''statement'', PStr ''b''), (''proximity_score'', PInt 7)]]
       0 = Inr [[(''statement'', PStr ''a'')],
                [(''statement'', PStr ''b''), (''proximity_score'', PInt 7)]]"
proof -
  let ?H = "[[(''statement'', PStr ''a'')],
             [(''statement'', PStr ''b''), (''rationale'', PStr ''r'')]]"
  let ?R = "[[(''statement'', PStr ''a'')],
             [(''statement'', PStr ''b''), (''proximity_score'', PInt 7)]]"
  have h: "\<forall>h \<in> set ?H. map_of h ''statement'' \<noteq> None
             \<and> (\<forall>r. map_of h ''rationale'' = Some r \<longrightarrow> rationale_ok r)"
    by (simp add: rationale_ok_def)
  have n: "\<forall>h \<in> set ?R. \<forall>v. map_of h ''proximity_score'' = Some v \<longrightarrow> num_of v \<noteq> None"
    by (simp add: num_of_def)
  from proximity_keeps_all_filter_by_score
         [OF h, of "\<lambda>k. ''Overall score: 8. Not relevant.''" 5]
  obtain evaluated where
    p: "proximity_process (\<lambda>k. ''Overall score: 8. Not relevant.'') ?H = Inr evaluated"
    and len: "length evaluated = length ?H"
    and f: "filter_relevant_hypotheses evaluated 5 =
             Inr (filter (\<lambda>h. \<exists>s. map_of h ''proximity_score'' = Some (PFloat s) \<and> s \<ge> 5)
                    evaluated)"
    and g: "\<forall>records t.
             (\<forall>h \<in> set records. \<forall>v. map_of h ''proximity_score'' = Some v
                                      \<longrightarrow> num_of v \<noteq> None)
             \<longrightarrow> filter_relevant_hypotheses records t =
                   Inr (filter (\<lambda>h. case map_of h ''proximity_score'' of
                                       None \<Rightarrow> 0 \<ge> t
                                     | Some v \<Rightarrow> (\<exists>s. num_of v = Some s \<and> s \<ge> t))
                          records)"
    by (elim exE conjE)
  have g5: "filter_relevant_hypotheses ?R 5 =
              Inr [[(''statement'', PStr ''b''), (''proximity_score'', PInt 7)]]"
    using g n by (simp add: num_of_def)
  have g0: "filter_relevant_hypotheses ?R 0 = Inr ?R"
    using g n by (simp add: num_of_def)
  have a: "list_all (\<lambda>h. map_of h ''statement'' \<noteq> None
                 \<and> (case map_of h ''rationale'' of None \<Rightarrow> True | Some r \<Rightarrow> rationale_ok r)) ?H"
    by (simp add: rationale_ok_def)
  have b: "list_all (\<lambda>h. case map_of h ''proximity_score'' of
                      None \<Rightarrow> True | Some v \<Rightarrow> num_of v \<noteq> None) ?R"
    by (simp add: num_of_def)
  have e: "\<exists>evaluated.
         proximity_process (\<lambda>k. ''Overall score: 8. Not relevant.'') ?H = Inr evaluated
         \<and> length evaluated = 2
         \<and> filter_relevant_hypotheses evaluated 5 =
             Inr (filter (\<lambda>h. \<exists>s. map_of h ''proximity_score'' = Some (PFloat s) \<and> s \<ge> 5)
                    evaluated)"
    using p len f by (intro exI [of _ evaluated] conjI) simp_all
  from a e b g5 g0 show ?thesis by (intro conjI)
qed

text \<open>
  The claim as worded fails in both directions: a record with score 8 whose flag
  \<open>is_relevant\<close> is false passes the filter at the default threshold 5, and a record with
  score 3 whose flag is true is dropped by it.
\<close>

theorem filter_relevant_counterexample:
  "proximity_process (\<lambda>k. ''Overall score: 8. Not relevant.'') [[(''statement'', PStr ''a'')]] =
     Inr [[(''statement'', PStr ''a''),
           (''proximity_evaluation'', PStr ''Overall score: 8. Not relevant.''),
           (''proximity_score'', PFloat 8), (''is_relevant'', PBool False)]]
   \<and> filter_relevant_hypotheses
        [[(''statement'', PStr ''a''),
          (''proximity_evaluation'', PStr ''Overall score: 8. Not relevant.''),
          (''proximity_score'', PFloat 8), (''is_relevant'', PBool False)]] 5 =
      Inr [[(''statement'', PStr ''a''),
            (''proximity_evaluation'', PStr ''Overall score: 8. Not relevant.''),
            (''proximity_score'', PFloat 8), (''is_relevant'', PBool False)]]
   \<and> proximity_process (\<lambda>k. ''Overall score: 3. Highly relevant.'')
        [[(''statement'', PStr ''b'')]] =
     Inr [[(''statement'', PStr ''b''),
           (''proximity_evaluation'', PStr ''Overall score: 3. Highly relevant.''),
           (''proximity_score'', PFloat 3), (''is_relevant'', PBool True)]]
   \<and> filter_relevant_hypotheses
        [[(''statement'', PStr ''b''),
          (''proximity_evaluation'', PStr ''Overall score: 3. Highly relevant.''),
          (''proximity_score'', PFloat 3), (''is_relevant'', PBool True)]] 5 = Inr []"
  by (simp add: proximity_process_def evaluated_record_def info_8_not_relevant
        info_3_highly_relevant num_of_def)

section \<open>Ranking: what the score extraction finds\<close>

lemma py_int_digits:
  "py_int ''1'' = Inr 1" "py_int ''2'' = Inr 2" "py_int ''3'' = Inr 3" "py_int ''4'' = Inr 4"
  "py_int ''5'' = Inr 5" "py_int ''6'' = Inr 6" "py_int ''7'' = Inr 7" "py_int ''8'' = Inr 8"
  "py_int ''9'' = Inr 9" "py_int ''10'' = Inr 10"
  by (simp_all add: py_int_def digit_val_def)

lemma pattern_score_criteria:
  "\<forall>c \<in> set criteria. \<forall>n \<in> set [1..10].
     pattern_score (colon_pattern c n) = Inr n
     \<and> pattern_score (dash_pattern c n) = Inr n
     \<and> pattern_score (slash_pattern c n) = Inr n"
  by (simp add: criteria_def upto_1_10 str_int_small pattern_score_def py_int_digits
        colon_pattern_def dash_pattern_def slash_pattern_def)

lemma lower_criteria: "\<forall>c \<in> set criteria. lower c = c"
  by (simp add: criteria_def)

lemma lower_digits: "\<forall>n \<in> set [1..10]. lower (str_int n) = str_int n"
  by (simp add: upto_1_10 str_int_small)

lemma lower_patterns:
  assumes "c \<in> set criteria" "n \<in> set [1..10]"
  shows "lower (colon_pattern c n) = colon_pattern c n"
    and "lower (dash_pattern c n) = dash_pattern c n"
    and "lower (slash_pattern c n) = slash_pattern c n"
  using assms lower_criteria lower_digits
  by (simp_all add: lower_append colon_pattern_def dash_pattern_def slash_pattern_def)

text \<open>The scan with \<open>break\<close> is a search for the first match; on an ascending range the
  first match is the least.\<close>

lemma first_match_find:
  "first_match ps ev = find (\<lambda>p. contains (lower p) (lower ev)) ps"
  by (induction ps) auto

lemma find_append:
  "find P (xs @ ys) = (case find P xs of Some x \<Rightarrow> Some x | None \<Rightarrow> find P ys)"
  by (induction xs) auto

lemma find_map: "find P (map f xs) = map_option f (find (\<lambda>x. P (f x)) xs)"
  by (induction xs) auto

lemma find_least:
  fixes xs :: "int list"
  assumes "sorted xs" "distinct xs"
  shows "find P xs = Some x \<longleftrightarrow> x \<in> set xs \<and> P x \<and> (\<forall>y \<in> set xs. y < x \<longrightarrow> \<not> P y)"
  using assms
proof (induction xs)
  case Nil
  then show ?case by simp
next
  case (Cons a xs)
  then have IH: "find P xs = Some x \<longleftrightarrow> x \<in> set xs \<and> P x \<and> (\<forall>y \<in> set xs. y < x \<longrightarrow> \<not> P y)"
    by simp
  from Cons.prems have lt: "\<forall>y \<in> set xs. a < y" by (auto simp: less_le)
  show ?case
  proof (cases "P a")
    case True
    then show ?thesis using lt by auto
  next
    case False
    then show ?thesis using IH lt by auto
  qed
qed

lemma find_upto:
  "find P [1..10] = Some n \<longleftrightarrow>
     1 \<le> n \<and> n \<le> 10 \<and> P n \<and> (\<forall>m. 1 \<le> m \<and> m < n \<longrightarrow> \<not> P m)"
proof -
  have "find P [1..10] = Some n \<longleftrightarrow>
          n \<in> set [1..10] \<and> P n \<and> (\<forall>y \<in> set [1..10]. y < n \<longrightarrow> \<not> P y)"
    by (rule find_least) simp_all
  then show ?thesis by auto
qed

lemma find_upto_None: "find P [1..10] = None \<longleftrightarrow> (\<forall>m. 1 \<le> m \<and> m \<le> 10 \<longrightarrow> \<not> P m)"
  by (auto simp: find_None_iff)

lemma first_match_criteria:
  assumes c: "c \<in> set criteria"
  shows "first_match (patterns c) ev =
           (case find (\<lambda>n. contains (colon_pattern c n) (lower ev)) [1..10] of
              Some n \<Rightarrow> Some (colon_pattern c n)
            | None \<Rightarrow>
                map_option (dash_pattern c)
                  (find (\<lambda>n. contains (dash_pattern c n) (lower ev)) [1..10]))"
proof -
  let ?C = "\<lambda>n. contains (colon_pattern c n) (lower ev)"
  let ?D = "\<lambda>n. contains (dash_pattern c n) (lower ev)"
  let ?T = "\<lambda>n. contains (slash_pattern c n) (lower ev)"
  have f1: "find (\<lambda>n. contains (lower (colon_pattern c n)) (lower ev)) [1..10] = find ?C [1..10]"
    by (rule find_cong) (simp_all add: lower_patterns [OF c])
  have f2: "find (\<lambda>n. contains (lower (dash_pattern c n)) (lower ev)) [1..10] = find ?D [1..10]"
    by (rule find_cong) (simp_all add: lower_patterns [OF c])
  have f3: "find (\<lambda>n. contains (lower (slash_pattern c n)) (lower ev)) [1..10]
            = find ?T [1..10]"
    by (rule find_cong) (simp_all add: lower_patterns [OF c])
  have t: "?T n \<Longrightarrow> ?C n" for n
    using contains_prefix [of "colon_pattern c n" "''/10''" "lower ev"]
    by (simp add: colon_pattern_def slash_pattern_def)
  have f3': "find ?C [1..10] = None \<Longrightarrow> find ?T [1..10] = None"
    unfolding find_upto_None using t by blast
  have "first_match (patterns c) ev =
          (case find ?C [1..10] of
             Some n \<Rightarrow> Some (colon_pattern c n)
           | None \<Rightarrow>
               (case find ?D [1..10] of
                  Some n \<Rightarrow> Some (dash_pattern c n)
                | None \<Rightarrow> map_option (slash_pattern c) (find ?T [1..10])))"
    unfolding first_match_find patterns_def find_append find_map f1 f2 f3
    by (simp split: option.splits)
  then show ?thesis using f3' by (auto split: option.splits)
qed

lemma find_in_range: "find P [1..10] = Some n \<Longrightarrow> n \<in> set [1..10]"
  by (auto simp: find_Some_iff)

lemma extract_step:
  assumes c: "c \<in> set criteria"
  shows "(case first_match (patterns c) ev of
            None \<Rightarrow> None
          | Some p \<Rightarrow> Some (pattern_score p)) = map_option Inr (score_of c ev)"
proof -
  have a: "find P [1..10] = Some n \<Longrightarrow> pattern_score (colon_pattern c n) = Inr n" for P n
    using pattern_score_criteria c find_in_range by blast
  have b: "find P [1..10] = Some n \<Longrightarrow> pattern_score (dash_pattern c n) = Inr n" for P n
    using pattern_score_criteria c find_in_range by blast
  show ?thesis
    unfolding first_match_criteria [OF c] score_of_def
    by (auto split: option.splits simp: a b)
qed

lemma update_fresh: "k \<notin> fst ` set al \<Longrightarrow> AList.update k v al = al @ [(k, v)]"
  by (induction al) auto

lemma extract_loop_closed:
  assumes "distinct cs" "set cs \<subseteq> set criteria" "set cs \<inter> fst ` set acc = {}"
  shows "extract_loop cs ev acc =
           Inr (acc @ map (\<lambda>c. (c, the (score_of c ev)))
                        (filter (\<lambda>c. score_of c ev \<noteq> None) cs))"
  using assms
proof (induction cs arbitrary: acc)
  case Nil
  then show ?case by simp
next
  case (Cons c cs)
  from Cons.prems have c: "c \<in> set criteria" by simp
  note st = extract_step [OF c, of ev]
  show ?case
  proof (cases "score_of c ev")
    case None
    then have "first_match (patterns c) ev = None" using st by (auto split: option.splits)
    then have "extract_loop (c # cs) ev acc = extract_loop cs ev acc" by simp
    also have "\<dots> = Inr (acc @ map (\<lambda>c. (c, the (score_of c ev)))
                        (filter (\<lambda>c. score_of c ev \<noteq> None) cs))"
      using Cons.prems by (intro Cons.IH) auto
    finally show ?thesis using None by simp
  next
    case (Some n)
    then obtain p where p: "first_match (patterns c) ev = Some p" "pattern_score p = Inr n"
      using st by (auto split: option.splits)
    have fresh: "c \<notin> fst ` set acc" using Cons.prems by auto
    have "extract_loop (c # cs) ev acc = extract_loop cs ev (acc @ [(c, n)])"
      using p by (simp add: update_fresh [OF fresh])
    also have "\<dots> = Inr ((acc @ [(c, n)]) @ map (\<lambda>c. (c, the (score_of c ev)))
                        (filter (\<lambda>c. score_of c ev \<noteq> None) cs))"
      using Cons.prems by (intro Cons.IH) auto
    finally show ?thesis using Some by simp
  qed
qed

lemma extract_scores_closed: "extract_scores ev = Inr (found_scores ev)"
proof -
  have "distinct criteria" by (simp add: criteria_def)
  then show ?thesis
    unfolding extract_scores_def found_scores_def
    using extract_loop_closed [of criteria "[]" ev] by simp
qed

lemma map_of_found:
  "distinct cs \<Longrightarrow>
   map_of (map (\<lambda>c. (c, the (f c))) (filter (\<lambda>c. f c \<noteq> None) cs)) c =
     (if c \<in> set cs then f c else None)"
  by (induction cs) auto

lemma map_of_found_scores:
  "map_of (found_scores ev) c = (if c \<in> set criteria then score_of c ev else None)"
proof -
  have "distinct criteria" by (simp add: criteria_def)
  from map_of_found [OF this, of "\<lambda>c. score_of c ev" c]
  show ?thesis unfolding found_scores_def .
qed

lemma keys_found_scores:
  "map fst (found_scores ev) = filter (\<lambda>c. map_of (found_scores ev) c \<noteq> None) criteria"
proof -
  have "map fst (found_scores ev) = filter (\<lambda>c. score_of c ev \<noteq> None) criteria"
    by (simp add: found_scores_def comp_def)
  also have "\<dots> = filter (\<lambda>c. map_of (found_scores ev) c \<noteq> None) criteria"
    by (rule filter_cong) (simp_all add: map_of_found_scores)
  finally show ?thesis .
qed

lemma score_of_iff:
  "score_of c ev = Some n \<longleftrightarrow>
     1 \<le> n \<and> n \<le> 10 \<and>
     ((contains (colon_pattern c n) (lower ev)
       \<and> (\<forall>m. 1 \<le> m \<and> m < n \<longrightarrow> \<not> contains (colon_pattern c m) (lower ev)))
      \<or> ((\<forall>m. 1 \<le> m \<and> m \<le> 10 \<longrightarrow> \<not> contains (colon_pattern c m) (lower ev))
         \<and> contains (dash_pattern c n) (lower ev)
         \<and> (\<forall>m. 1 \<le> m \<and> m < n \<longrightarrow> \<not> contains (dash_pattern c m) (lower ev))))"
proof (cases "find (\<lambda>n. contains (colon_pattern c n) (lower ev)) [1..10]")
  case None
  then have no: "\<forall>m. 1 \<le> m \<and> m \<le> 10 \<longrightarrow> \<not> contains (colon_pattern c m) (lower ev)"
    unfolding find_upto_None .
  have "score_of c ev = Some n \<longleftrightarrow>
          find (\<lambda>n. contains (dash_pattern c n) (lower ev)) [1..10] = Some n"
    using None by (simp add: score_of_def)
  also have "\<dots> \<longleftrightarrow> 1 \<le> n \<and> n \<le> 10 \<and> contains (dash_pattern c n) (lower ev)
                  \<and> (\<forall>m. 1 \<le> m \<and> m < n \<longrightarrow> \<not> contains (dash_pattern c m) (lower ev))"
    by (rule find_upto)
  finally show ?thesis using no by blast
next
  case (Some k)
  then have k: "1 \<le> k" "k \<le> 10" "contains (colon_pattern c k) (lower ev)"
    "\<forall>m. 1 \<le> m \<and> m < k \<longrightarrow> \<not> contains (colon_pattern c m) (lower ev)"
    unfolding find_upto by auto
  have s: "score_of c ev = Some k" using Some by (simp add: score_of_def)
  show ?thesis
  proof
    assume "score_of c ev = Some n"
    then have "n = k" using s by simp
    then show "1 \<le> n \<and> n \<le> 10 \<and>
     ((contains (colon_pattern c n) (lower ev)
       \<and> (\<forall>m. 1 \<le> m \<and> m < n \<longrightarrow> \<not> contains (colon_pattern c m) (lower ev)))
      \<or> ((\<forall>m. 1 \<le> m \<and> m \<le> 10 \<longrightarrow> \<not> contains (colon_pattern c m) (lower ev))
         \<and> contains (dash_pattern c n) (lower ev)
         \<and> (\<forall>m. 1 \<le> m \<and> m < n \<longrightarrow> \<not> contains (dash_pattern c m) (lower ev))))"
      using k by blast
  next
    assume r: "1 \<le> n \<and> n \<le> 10 \<and>
     ((contains (colon_pattern c n) (lower ev)
       \<and> (\<forall>m. 1 \<le> m \<and> m < n \<longrightarrow> \<not> contains (colon_pattern c m) (lower ev)))
      \<or> ((\<forall>m. 1 \<le> m \<and> m \<le> 10 \<longrightarrow> \<not> contains (colon_pattern c m) (lower ev))
         \<and> contains (dash_pattern c n) (lower ev)
         \<and> (\<forall>m. 1 \<le> m \<and> m < n \<longrightarrow> \<not> contains (dash_pattern c m) (lower ev))))"
    then have "contains (colon_pattern c n) (lower ev)
       \<and> (\<forall>m. 1 \<le> m \<and> m < n \<longrightarrow> \<not> contains (colon_pattern c m) (lower ev))"
      using k by blast
    then have "n = k" using k r by (metis linorder_neqE_linordered_idom)
    then show "score_of c ev = Some n" using s by simp
  qed
qed


lemma score_of_absent: "\<not> contains c (lower ev) \<Longrightarrow> score_of c ev = None"
proof -
  assume n: "\<not> contains c (lower ev)"
  have "\<not> contains (colon_pattern c m) (lower ev)" for m
    using n contains_prefix [of c "'': '' @ str_int m" "lower ev"]
    by (auto simp: colon_pattern_def)
  moreover have "\<not> contains (dash_pattern c m) (lower ev)" for m
    using n contains_prefix [of c "'' - '' @ str_int m" "lower ev"]
    by (auto simp: dash_pattern_def)
  ultimately show ?thesis
    by (simp add: score_of_def find_upto_None split: option.splits)
qed

lemma scan_range_find:
  "scan_range p ev ns = find (\<lambda>i. contains (lower (format p i)) (lower ev)) ns"
  by (induction ns) auto

lemma colon_10_gives_1:
  assumes "contains (colon_pattern c 10) (lower ev)"
  shows "score_of c ev = Some 1"
proof -
  have "colon_pattern c 10 = colon_pattern c 1 @ ''0''"
    by (simp add: colon_pattern_def str_int_small)
  then have "contains (colon_pattern c 1) (lower ev)"
    using assms contains_prefix by metis
  then show ?thesis unfolding score_of_iff by auto
qed

lemma scan_pattern_least:
  assumes "1 \<le> n" "n \<le> 10" "contains (lower (format p n)) (lower ev)"
    and "\<forall>m. 1 \<le> m \<and> m < n \<longrightarrow> \<not> contains (lower (format p m)) (lower ev)"
  shows "scan_pattern ev score p = of_int n"
proof -
  have "find (\<lambda>i. contains (lower (format p i)) (lower ev)) [1..10] = Some n"
    unfolding find_upto using assms by blast
  then show ?thesis by (simp add: scan_pattern_def scan_range_find)
qed

lemma scan_pattern_none:
  assumes "\<forall>m. 1 \<le> m \<and> m \<le> 10 \<longrightarrow> \<not> contains (lower (format p m)) (lower ev)"
  shows "scan_pattern ev score p = score"
proof -
  have "find (\<lambda>i. contains (lower (format p i)) (lower ev)) [1..10] = None"
    unfolding find_upto_None using assms by blast
  then show ?thesis by (simp add: scan_pattern_def scan_range_find)
qed

lemma proximity_score_nested:
  "fst (extract_proximity_info ev) =
     scan_pattern ev
       (scan_pattern ev
         (scan_pattern ev
           (scan_pattern ev 5 ''overall proximity score: {}'')
           ''overall proximity score of {}'')
         ''proximity score: {}'')
       ''overall score: {}''"
  by (simp add: extract_proximity_info_def Let_def score_patterns_def)

text \<open>
  C3, as the code has it: for each criterion, the ranking extraction stores the least
  \<open>n\<close> in 1..10 whose pattern \<open>label: n\<close> occurs in the lower-cased text; only when no
  such pattern occurs, the least \<open>n\<close> whose pattern \<open>label - n\<close> occurs; and nothing when
  neither kind occurs. So a text that contains \<open>label: 10\<close> yields 1. The proximity
  agent scans each of its four score templates the same way: a scan sets the score to the
  least \<open>n\<close> in 1..10 whose filled-in template occurs, and leaves the score as it was when
  none occurs; the score starts at 5 and the templates are scanned in the order of their
  list.
\<close>

theorem extract_scores_first_match:
  assumes "c \<in> set criteria"
  shows "\<exists>scores. extract_scores ev = Inr scores
     \<and> (\<forall>n. map_of scores c = Some n \<longleftrightarrow>
            1 \<le> n \<and> n \<le> 10 \<and>
            ((contains (colon_pattern c n) (lower ev)
              \<and> (\<forall>m. 1 \<le> m \<and> m < n \<longrightarrow> \<not> contains (colon_pattern c m) (lower ev)))
             \<or> ((\<forall>m. 1 \<le> m \<and> m \<le> 10 \<longrightarrow> \<not> contains (colon_pattern c m) (lower ev))
                \<and> contains (dash_pattern c n) (lower ev)
                \<and> (\<forall>m. 1 \<le> m \<and> m < n \<longrightarrow> \<not> contains (dash_pattern c m) (lower ev)))))
     \<and> (contains (colon_pattern c 10) (lower ev) \<longrightarrow> map_of scores c = Some 1)
     \<and> (\<forall>p score n.
            1 \<le> n \<and> n \<le> 10 \<and> contains (lower (format p n)) (lower ev)
            \<and> (\<forall>m. 1 \<le> m \<and> m < n \<longrightarrow> \<not> contains (lower (format p m)) (lower ev))
            \<longrightarrow> scan_pattern ev score p = of_int n)
     \<and> (\<forall>p score.
            (\<forall>m. 1 \<le> m \<and> m \<le> 10 \<longrightarrow> \<not> contains (lower (format p m)) (lower ev))
            \<longrightarrow> scan_pattern ev score p = score)
     \<and> fst (extract_proximity_info ev) =
         scan_pattern ev
           (scan_pattern ev
             (scan_pattern ev
               (scan_pattern ev 5 ''overall proximity score: {}'')
               ''overall proximity score of {}'')
             ''proximity score: {}'')
           ''overall score: {}''"
proof -
  have m: "map_of (found_scores ev) c = score_of c ev"
    using assms by (simp add: map_of_found_scores)
  show ?thesis
  proof (rule exI [of _ "found_scores ev"], intro conjI)
    show "extract_scores ev = Inr (found_scores ev)" by (rule extract_scores_closed)
    show "\<forall>n. map_of (found_scores ev) c = Some n \<longleftrightarrow>
            1 \<le> n \<and> n \<le> 10 \<and>
            ((contains (colon_pattern c n) (lower ev)
              \<and> (\<forall>m. 1 \<le> m \<and> m < n \<longrightarrow> \<not> contains (colon_pattern c m) (lower ev)))
             \<or> ((\<forall>m. 1 \<le> m \<and> m \<le> 10 \<longrightarrow> \<not> contains (colon_pattern c m) (lower ev))
                \<and> contains (dash_pattern c n) (lower ev)
                \<and> (\<forall>m. 1 \<le> m \<and> m < n \<longrightarrow> \<not> contains (dash_pattern c m) (lower ev))))"
      unfolding m by (intro allI score_of_iff)
    show "contains (colon_pattern c 10) (lower ev) \<longrightarrow> map_of (found_scores ev) c = Some 1"
      unfolding m by (intro impI colon_10_gives_1)
    show "\<forall>p score n.
            1 \<le> n \<and> n \<le> 10 \<and> contains (lower (format p n)) (lower ev)
            \<and> (\<forall>m. 1 \<le> m \<and> m < n \<longrightarrow> \<not> contains (lower (format p m)) (lower ev))
            \<longrightarrow> scan_pattern ev score p = of_int n"
      using scan_pattern_least by blast
    show "\<forall>p score.
            (\<forall>m. 1 \<le> m \<and> m \<le> 10 \<longrightarrow> \<not> contains (lower (format p m)) (lower ev))
            \<longrightarrow> scan_pattern ev score p = score"
      using scan_pattern_none by blast
    show "fst (extract_proximity_info ev) =
         scan_pattern ev
           (scan_pattern ev
             (scan_pattern ev
               (scan_pattern ev 5 ''overall proximity score: {}'')
               ''overall proximity score of {}'')
             ''proximity score: {}'')
           ''overall score: {}''"
      by (rule proximity_score_nested)
  qed
qed

lemma novelty_10: "contains (colon_pattern ''novelty'' 10) (lower ''Novelty: 10'')"
  by (simp add: colon_pattern_def str_int_small)

lemma overall_10:
  "contains (lower (format ''overall score: {}'' 1)) (lower ''Overall score: 10'')"
  "contains (lower (format ''overall score: {}'' 10)) (lower ''Overall score: 10'')"
  "\<not> contains ''proximity score'' (lower ''Overall score: 10'')"
  by (simp_all add: format_score_patterns str_int_small)

theorem extract_scores_first_match_witness:
  "''novelty'' \<in> set criteria
   \<and> contains (colon_pattern ''novelty'' 10) (lower ''Novelty: 10'')
   \<and> (\<exists>scores. extract_scores ''Novelty: 10'' = Inr scores
                \<and> map_of scores ''novelty'' = Some 1)
   \<and> contains (lower (format ''overall score: {}'' 10)) (lower ''Overall score: 10'')
   \<and> scan_pattern ''Overall score: 10'' 5 ''overall score: {}'' = 1
   \<and> fst (extract_proximity_info ''Overall score: 10'') = 1"
proof -
  have c: "''novelty'' \<in> set criteria" by (simp add: criteria_def)
  from extract_scores_first_match [OF c, of "''Novelty: 10''"] novelty_10
  have a: "\<exists>scores. extract_scores ''Novelty: 10'' = Inr scores
                \<and> map_of scores ''novelty'' = Some 1"
    by blast
  from extract_scores_first_match [OF c, of "''Overall score: 10''"]
  have least: "\<forall>p score n.
            1 \<le> n \<and> n \<le> 10 \<and> contains (lower (format p n)) (lower ''Overall score: 10'')
            \<and> (\<forall>m. 1 \<le> m \<and> m < n \<longrightarrow>
                   \<not> contains (lower (format p m)) (lower ''Overall score: 10''))
            \<longrightarrow> scan_pattern ''Overall score: 10'' score p = of_int n"
    and nest: "fst (extract_proximity_info ''Overall score: 10'') =
         scan_pattern ''Overall score: 10''
           (scan_pattern ''Overall score: 10''
             (scan_pattern ''Overall score: 10''
               (scan_pattern ''Overall score: 10'' 5 ''overall proximity score: {}'')
               ''overall proximity score of {}'')
             ''proximity score: {}'')
           ''overall score: {}''"
    by blast+
  have one: "scan_pattern ''Overall score: 10'' score ''overall score: {}'' = 1" for score
  proof -
    have "(1::int) \<le> 1 \<and> (1::int) \<le> 10
          \<and> contains (lower (format ''overall score: {}'' 1)) (lower ''Overall score: 10'')
          \<and> (\<forall>m. (1::int) \<le> m \<and> m < 1 \<longrightarrow>
                 \<not> contains (lower (format ''overall score: {}'' m)) (lower ''Overall score: 10''))"
    proof (intro conjI allI impI)
      show "contains (lower (format ''overall score: {}'' 1)) (lower ''Overall score: 10'')"
        by (rule overall_10(1))
    next
      fix m :: int
      assume "1 \<le> m \<and> m < 1"
      then have False by arith
      then show "\<not> contains (lower (format ''overall score: {}'' m)) (lower ''Overall score: 10'')"
        by (rule FalseE)
    qed simp_all
    with least have "scan_pattern ''Overall score: 10'' score ''overall score: {}'' = of_int 1"
      by blast
    then show ?thesis by simp
  qed
  have "fst (extract_proximity_info ''Overall score: 10'') = 1"
    unfolding nest by (rule one)
  with c novelty_10 a overall_10(2) one [of 5] show ?thesis by (intro conjI)
qed

text \<open>
  The claim as worded fails on a text in which a dash pattern with a smaller number stands
  beside a colon pattern: all colon patterns are tried before any dash pattern, so the
  score is 5 although the pattern for 2 occurs.
\<close>

lemma score_of_novelty_dash_colon: "score_of ''novelty'' ''novelty - 2, novelty: 5'' = Some 5"
  by (simp add: score_of_def upto_1_10 colon_pattern_def str_int_small)

theorem extract_scores_counterexample:
  "extract_scores ''novelty - 2, novelty: 5'' = Inr [(''novelty'', 5)]
   \<and> contains (dash_pattern ''novelty'' 2) (lower ''novelty - 2, novelty: 5'')"
  by (simp add: extract_scores_closed found_scores_def criteria_def score_of_absent
        score_of_novelty_dash_colon dash_pattern_def str_int_small)

section \<open>Ranking: the overall score of the scoring strategy\<close>

lemma score_loop_closed:
  "\<forall>h \<in> set hs. \<forall>v. map_of h ''review'' = Some v \<longrightarrow> sliceable v
   \<Longrightarrow> score_loop resp idx hs =
         Inr (map (\<lambda>(i, h). scored_record h (resp i) (found_scores (resp i)))
                (enumerate idx hs))"
  by (induction hs arbitrary: idx) (auto simp: extract_scores_closed split: option.splits)

lemma set_sorted_reverse [simp]: "set (sorted_reverse key xs) = set xs"
  by (simp add: sorted_reverse_def)

lemma length_sorted_reverse [simp]: "length (sorted_reverse key xs) = length xs"
  by (simp add: sorted_reverse_def)

lemma scored_record_fields:
  "map_of (scored_record h ev scores) ''evaluation'' = Some (PStr ev)"
  "map_of (scored_record h ev scores) ''overall_score'' = Some (overall_score scores)"
  by (simp_all add: scored_record_def update_conv')

lemma ranked_element:
  assumes "x \<in> set (map (\<lambda>(rank, h). AList.update ''rank'' (PInt (int rank + 1)) h)
                       (enumerate 0 xs))"
  shows "\<exists>r h. h \<in> set xs \<and> x = AList.update ''rank'' r h"
proof -
  from assms obtain a where "a < length xs"
    and "x = AList.update ''rank'' (PInt (int a + 1)) (xs ! a)"
    by (auto simp: in_set_enumerate_eq)
  then have "xs ! a \<in> set xs \<and> x = AList.update ''rank'' (PInt (int a + 1)) (xs ! a)"
    by simp
  then show ?thesis by blast
qed

text \<open>
  C2: when every review the prompt slices is a string or a list, the scoring strategy ranks
  every hypothesis, and the overall score of each ranked record is the sum of the scores
  extracted from its evaluation text divided by their number. The extracted scores have
  one entry for each criterion found and none for the others, so the denominator is the
  number of criteria found; with none found the overall score is 0.
\<close>

theorem overall_score_mean_of_found:
  assumes "\<forall>h \<in> set hypotheses. \<forall>v. map_of h ''review'' = Some v \<longrightarrow> sliceable v"
  shows "\<exists>ranked.
           rank_by_scoring resp hypotheses = Inr ranked
           \<and> length ranked = length hypotheses
           \<and> (\<forall>h \<in> set ranked. \<exists>i scores.
                 i < length hypotheses
                 \<and> map_of h ''evaluation'' = Some (PStr (resp i))
                 \<and> extract_scores (resp i) = Inr scores
                 \<and> map fst scores = filter (\<lambda>c. map_of scores c \<noteq> None) criteria
                 \<and> map_of h ''overall_score'' =
                     Some (if scores = [] then PInt 0
                           else PFloat (of_int (sum_list (map snd scores))
                                        / of_nat (length scores))))"
proof -
  define scored where
    "scored = map (\<lambda>(i, h). scored_record h (resp i) (found_scores (resp i)))
                (enumerate 0 hypotheses)"
  define ranked where
    "ranked = map (\<lambda>(rank, h). AList.update ''rank'' (PInt (int rank + 1)) h)
                (enumerate 0 (sorted_reverse score_key scored))"
  have sl: "score_loop resp 0 hypotheses = Inr scored"
    unfolding scored_def by (rule score_loop_closed [OF assms])
  have r: "rank_by_scoring resp hypotheses = Inr ranked"
    by (simp add: rank_by_scoring_def sl ranked_def)
  have len: "length ranked = length hypotheses"
    by (simp add: ranked_def scored_def)
  have el: "\<exists>i scores.
                 i < length hypotheses
                 \<and> map_of h ''evaluation'' = Some (PStr (resp i))
                 \<and> extract_scores (resp i) = Inr scores
                 \<and> map fst scores = filter (\<lambda>c. map_of scores c \<noteq> None) criteria
                 \<and> map_of h ''overall_score'' =
                     Some (if scores = [] then PInt 0
                           else PFloat (of_int (sum_list (map snd scores))
                                        / of_nat (length scores)))"
    if "h \<in> set ranked" for h
  proof -
    from that obtain rk s where s: "s \<in> set scored" and h: "h = AList.update ''rank'' rk s"
      unfolding ranked_def using ranked_element [of h "sorted_reverse score_key scored"]
      by auto
    from s obtain i where i: "i < length hypotheses"
      and si: "s = scored_record (hypotheses ! i) (resp i) (found_scores (resp i))"
      unfolding scored_def by (auto simp: in_set_enumerate_eq)
    have "map_of h ''evaluation'' = Some (PStr (resp i))"
      unfolding h si by (simp add: update_conv' scored_record_fields)
    moreover have "map_of h ''overall_score'' = Some (overall_score (found_scores (resp i)))"
      unfolding h si by (simp add: update_conv' scored_record_fields)
    moreover have "overall_score (found_scores (resp i)) =
             (if found_scores (resp i) = [] then PInt 0
              else PFloat (of_int (sum_list (map snd (found_scores (resp i))))
                           / of_nat (length (found_scores (resp i)))))"
      by (simp add: overall_score_def)
    ultimately have "i < length hypotheses
                 \<and> map_of h ''evaluation'' = Some (PStr (resp i))
                 \<and> extract_scores (resp i) = Inr (found_scores (resp i))
                 \<and> map fst (found_scores (resp i)) =
                     filter (\<lambda>c. map_of (found_scores (resp i)) c \<noteq> None) criteria
                 \<and> map_of h ''overall_score'' =
                     Some (if found_scores (resp i) = [] then PInt 0
                           else PFloat (of_int (sum_list (map snd (found_scores (resp i))))
                                        / of_nat (length (found_scores (resp i)))))"
      using i extract_scores_closed [of "resp i"] keys_found_scores [of "resp i"]
      by (simp only: simp_thms)
    then show ?thesis by blast
  qed
  have c: "\<forall>h \<in> set ranked. \<exists>i scores.
                 i < length hypotheses
                 \<and> map_of h ''evaluation'' = Some (PStr (resp i))
                 \<and> extract_scores (resp i) = Inr scores
                 \<and> map fst scores = filter (\<lambda>c. map_of scores c \<noteq> None) criteria
                 \<and> map_of h ''overall_score'' =
                     Some (if scores = [] then PInt 0
                           else PFloat (of_int (sum_list (map snd scores))
                                        / of_nat (length scores)))"
    by (intro ballI el)
  from r len c show ?thesis by (intro exI [of _ ranked] conjI)
qed

lemma scores_8_6:
  "extract_scores ''novelty: 8, relevance: 6'' = Inr [(''novelty'', 8), (''relevance'', 6)]"
proof -
  have "score_of ''novelty'' ''novelty: 8, relevance: 6'' = Some 8"
    by (simp add: score_of_def upto_1_10 colon_pattern_def str_int_small)
  moreover have "score_of ''relevance'' ''novelty: 8, relevance: 6'' = Some 6"
    by (simp add: score_of_def upto_1_10 colon_pattern_def str_int_small)
  ultimately show ?thesis
    by (simp add: extract_scores_closed found_scores_def criteria_def score_of_absent)
qed

theorem overall_score_mean_of_found_witness:
  "list_all (\<lambda>h. map_of h ''review'' = None) [[(''statement'', PStr ''a'')]]
   \<and> extract_scores ''novelty: 8, relevance: 6'' = Inr [(''novelty'', 8), (''relevance'', 6)]
   \<and> (\<exists>ranked. rank_by_scoring (\<lambda>k. ''novelty: 8, relevance: 6'')
                  [[(''statement'', PStr ''a'')]] = Inr ranked
         \<and> length ranked = length [[(''statement'', PStr ''a'')]]
         \<and> (\<forall>h \<in> set ranked. map_of h ''overall_score'' = Some (PFloat 7)))"
proof -
  let ?H = "[[(''statement'', PStr ''a'')]]"
  let ?T = "''novelty: 8, relevance: 6''"
  have a: "\<forall>h \<in> set ?H. \<forall>v. map_of h ''review'' = Some v \<longrightarrow> sliceable v"
    by simp
  from overall_score_mean_of_found [OF a, of "\<lambda>k. ?T"]
  obtain ranked where r: "rank_by_scoring (\<lambda>k. ?T) ?H = Inr ranked"
    and l: "length ranked = length ?H"
    and e: "\<forall>h \<in> set ranked. \<exists>i scores.
                 i < length ?H
                 \<and> map_of h ''evaluation'' = Some (PStr ?T)
                 \<and> extract_scores ?T = Inr scores
                 \<and> map fst scores = filter (\<lambda>c. map_of scores c \<noteq> None) criteria
                 \<and> map_of h ''overall_score'' =
                     Some (if scores = [] then PInt 0
                           else PFloat (of_int (sum_list (map snd scores))
                                        / of_nat (length scores)))"
    by (elim exE conjE)
  have "map_of h ''overall_score'' = Some (PFloat 7)" if "h \<in> set ranked" for h
  proof -
    from e that obtain scores where "extract_scores ?T = Inr scores"
      and o: "map_of h ''overall_score'' =
                     Some (if scores = [] then PInt 0
                           else PFloat (of_int (sum_list (map snd scores))
                                        / of_nat (length scores)))"
      by blast
    then have "scores = [(''novelty'', 8), (''relevance'', 6)]"
      by (simp only: scores_8_6 sum.inject)
    then show ?thesis using o by simp
  qed
  moreover have "list_all (\<lambda>h. map_of h ''review'' = None) [[(''statement'', PStr ''a'')]]"
    by simp
  ultimately show ?thesis using r l scores_8_6 by blast
qed

section \<open>Ranking: the pairwise tournament\<close>

lemma length_pairs_sum: "length (pairs n) = sum_list (map (\<lambda>i. n - Suc i) [0..<n])"
  by (simp add: pairs_def length_concat comp_def)

lemma gauss_below: "2 * (\<Sum>i = 0..<n. i) = n * (n - (1::nat))"
proof (induction n)
  case 0
  show ?case by simp
next
  case (Suc n)
  then show ?case by (cases n) (simp_all add: algebra_simps)
qed

lemma sum_rows: "2 * sum_list (map (\<lambda>i. n - Suc i) [0..<n]) = n * (n - 1)"
proof -
  have "sum_list (map (\<lambda>i. n - Suc i) [0..<n]) = (\<Sum>i = 0..<n. n - Suc i)"
    by (simp add: interv_sum_list_conv_sum_set_nat)
  also have "\<dots> = (\<Sum>i = 0..<n. i)"
    using sum.atLeastLessThan_rev [of "\<lambda>i. i" 0 n] by simp
  finally show ?thesis using gauss_below [of n] by simp
qed

lemma length_pairs: "length (pairs n) = n * (n - 1) div 2"
  using sum_rows [of n] length_pairs_sum [of n] by simp

lemma in_pairs: "(i, j) \<in> set (pairs n) \<Longrightarrow> i < j \<and> j < n"
  by (auto simp: pairs_def)



lemma determine_winner_cases: "determine_winner t a b \<in> {a, b, 0}"
  by (simp add: determine_winner_def Let_def)

text \<open>The state after any stretch of the comparison loop.\<close>

lemma compare_fold:
  assumes "\<forall>(i, j) \<in> set ps. i < length wins \<and> j < length wins"
  shows "length (fst (foldl (compare_step resp) (wins, comps) ps)) = length wins
   \<and> sum_list (fst (foldl (compare_step resp) (wins, comps) ps)) =
       sum_list wins
       + length (filter (\<lambda>c. winner c \<noteq> 0)
                   (drop (length comps) (snd (foldl (compare_step resp) (wins, comps) ps))))
   \<and> map (\<lambda>c. (hypothesis1_idx c, hypothesis2_idx c))
         (snd (foldl (compare_step resp) (wins, comps) ps)) =
       map (\<lambda>c. (hypothesis1_idx c, hypothesis2_idx c)) comps @ ps
   \<and> (\<forall>c \<in> set (drop (length comps) (snd (foldl (compare_step resp) (wins, comps) ps))).
         winner c \<in> {0, 1, 2})
   \<and> take (length comps) (snd (foldl (compare_step resp) (wins, comps) ps)) = comps"
  using assms
proof (induction ps arbitrary: wins comps)
  case Nil
  show ?case by simp
next
  case (Cons p ps)
  obtain i j where p: "p = (i, j)" by (cases p)
  from Cons.prems p have ij: "i < length wins" "j < length wins" by auto
  define w where "w = determine_winner (resp (length comps)) 1 2"
  define c where "c = \<lparr>hypothesis1_idx = i, hypothesis2_idx = j, winner = w,
                         reasoning = resp (length comps)\<rparr>"
  define wins' where
    "wins' = (if w = 1 then wins[i := wins ! i + 1]
              else if w = 2 then wins[j := wins ! j + 1] else wins)"
  have step: "compare_step resp (wins, comps) p = (wins', comps @ [c])"
    by (simp add: p wins'_def c_def w_def Let_def)
  have w012: "w \<in> {0, 1, 2}" using determine_winner_cases [of "resp (length comps)" 1 2]
    by (auto simp: w_def)
  have lw: "length wins' = length wins" by (simp add: wins'_def)
  have sw: "sum_list wins' = sum_list wins + (if w \<noteq> 0 then 1 else 0)"
    using w012 ij by (auto simp: wins'_def sum_list_update)
  let ?r = "foldl (compare_step resp) (wins', comps @ [c]) ps"
  have pre: "\<forall>(i, j) \<in> set ps. i < length wins' \<and> j < length wins'"
    using Cons.prems lw by auto
  note IH = Cons.IH [OF pre, of "comps @ [c]"]
  have tk: "take (Suc (length comps)) (snd ?r) = comps @ [c]" using IH by simp
  then have len: "Suc (length comps) \<le> length (snd ?r)"
    by (metis length_append_singleton length_take min.cobounded1 min_def nat_le_linear take_all)
  have dr: "drop (length comps) (snd ?r) = c # drop (Suc (length comps)) (snd ?r)"
  proof -
    have "snd ?r = (comps @ [c]) @ drop (Suc (length comps)) (snd ?r)"
      using tk by (metis append_take_drop_id)
    then have "drop (length comps) (snd ?r)
               = drop (length comps) (comps @ c # drop (Suc (length comps)) (snd ?r))"
      by simp
    then show ?thesis by simp
  qed
  have tk2: "take (length comps) (snd ?r) = comps"
  proof -
    have "take (length comps) (snd ?r) = take (length comps) (take (Suc (length comps)) (snd ?r))"
      by simp
    then show ?thesis using tk by simp
  qed
  have wc: "winner c = w" by (simp add: c_def)
  have ic: "(hypothesis1_idx c, hypothesis2_idx c) = p" by (simp add: c_def p)
  show ?case
    unfolding foldl_Cons step
    using IH lw sw dr tk2 wc ic w012 by auto
qed

lemma count_eq_upt: "length (filter (\<lambda>j. j = k) [a..<b]) = (if a \<le> k \<and> k < b then 1 else 0)"
  by (induction b) auto

lemma row_count:
  assumes "i < n" "idx < n"
  shows "length (filter (\<lambda>(a, b). a = idx \<or> b = idx) (map (Pair i) [Suc i..<n])) =
           (if i < idx then 1 else 0) + (if i = idx then n - Suc idx else 0)"
proof -
  have "length (filter (\<lambda>(a, b). a = idx \<or> b = idx) (map (Pair i) [Suc i..<n]))
        = length (filter (\<lambda>j. i = idx \<or> j = idx) [Suc i..<n])"
    by (simp add: filter_map comp_def)
  also have "\<dots> = (if i < idx then 1 else 0) + (if i = idx then n - Suc idx else 0)"
  proof (cases "i = idx")
    case True
    then show ?thesis by simp
  next
    case False
    then have "length (filter (\<lambda>j. i = idx \<or> j = idx) [Suc i..<n])
               = length (filter (\<lambda>j. j = idx) [Suc i..<n])"
      by simp
    then show ?thesis using False assms by (auto simp: count_eq_upt)
  qed
  finally show ?thesis .
qed

lemma pairs_with:
  assumes "idx < n"
  shows "length (filter (\<lambda>(a, b). a = idx \<or> b = idx) (pairs n)) = n - 1"
proof -
  let ?P = "\<lambda>(a, b). a = idx \<or> b = idx"
  have "length (filter ?P (pairs n))
        = sum_list (map (\<lambda>i. length (filter ?P (map (Pair i) [Suc i..<n]))) [0..<n])"
    by (simp add: pairs_def filter_concat length_concat comp_def)
  also have "\<dots> = sum_list (map (\<lambda>i. (if i < idx then 1 else 0)
                                      + (if i = idx then n - Suc idx else 0)) [0..<n])"
    by (intro arg_cong [where f = sum_list] map_cong refl row_count) (simp_all add: assms)
  also have "\<dots> = (\<Sum>i = 0..<n. (if i < idx then 1 else 0)
                                      + (if i = idx then n - Suc idx else 0))"
    by (simp add: interv_sum_list_conv_sum_set_nat)
  also have "\<dots> = (\<Sum>i = 0..<n. if i < idx then 1 else 0)
                  + (\<Sum>i = 0..<n. if i = idx then n - Suc idx else 0)"
    by (rule sum.distrib)
  also have "(\<Sum>i = 0..<n. if i = idx then n - Suc idx else 0) = n - Suc idx"
    using assms by simp
  also have "(\<Sum>i = 0..<n. if i < idx then 1 else 0) = idx"
  proof -
    have "(\<Sum>i = 0..<n. if i < idx then 1 else 0) = card ({0..<n} \<inter> {i. i < idx})"
      by (simp add: sum.If_cases)
    also have "{0..<n} \<inter> {i. i < idx} = {0..<idx}" using assms by auto
    finally show ?thesis by simp
  qed
  finally show ?thesis using assms by simp
qed

lemma run_facts:
  "length (final_wins resp n) = n"
  "sum_list (final_wins resp n) =
     length (filter (\<lambda>c. winner c \<noteq> 0) (final_comparisons resp n))"
  "map (\<lambda>c. (hypothesis1_idx c, hypothesis2_idx c)) (final_comparisons resp n) = pairs n"
  "\<forall>c \<in> set (final_comparisons resp n). winner c \<in> {0, 1, 2}"
proof -
  have "\<forall>(i, j) \<in> set (pairs n). i < length (replicate n (0::nat))
                                   \<and> j < length (replicate n (0::nat))"
    using in_pairs by fastforce
  from compare_fold [OF this, of resp "[]"]
  show "length (final_wins resp n) = n"
    and "sum_list (final_wins resp n) =
           length (filter (\<lambda>c. winner c \<noteq> 0) (final_comparisons resp n))"
    and "map (\<lambda>c. (hypothesis1_idx c, hypothesis2_idx c)) (final_comparisons resp n) = pairs n"
    and "\<forall>c \<in> set (final_comparisons resp n). winner c \<in> {0, 1, 2}"
    by (simp_all add: final_wins_def final_comparisons_def run_comparisons_def)
qed

lemma total_comparisons_eq:
  assumes "idx < n"
  shows "total_comparisons (final_comparisons resp n) idx = n - 1"
proof -
  let ?P = "\<lambda>(a, b). a = idx \<or> b = idx"
  let ?f = "\<lambda>c. (hypothesis1_idx c, hypothesis2_idx c)"
  have "total_comparisons (final_comparisons resp n) idx
        = length (filter (?P \<circ> ?f) (final_comparisons resp n))"
    by (simp add: total_comparisons_def comp_def)
  also have "\<dots> = length (filter ?P (map ?f (final_comparisons resp n)))"
    by (simp only: filter_map length_map)
  also have "\<dots> = n - 1"
    unfolding run_facts(3) by (rule pairs_with [OF assms])
  finally show ?thesis .
qed

subsection \<open>The descending stable sort\<close>

lemma sorted_reverse_same:
  "set (sorted_reverse f xs) = set xs"
  "length (sorted_reverse f xs) = length xs"
  "distinct (sorted_reverse f xs) = distinct xs"
  by (simp_all add: sorted_reverse_def)

lemma sorted_reverse_stable:
  "filter (\<lambda>y. f y = k) (sorted_reverse f xs) = filter (\<lambda>y. f y = k) xs"
proof -
  have "filter (\<lambda>y. f y = k) (sorted_reverse f xs)
        = rev (filter (\<lambda>y. f y = k) (sort_key f (rev xs)))"
    by (simp add: sorted_reverse_def rev_filter)
  also have "\<dots> = rev (filter (\<lambda>y. f y = k) (rev xs))"
    by (simp only: sort_key_stable)
  also have "\<dots> = filter (\<lambda>y. f y = k) xs"
    by (simp add: rev_filter)
  finally show ?thesis .
qed

lemma sorted_reverse_desc:
  assumes "p < q" "q < length xs"
  shows "f (sorted_reverse f xs ! q) \<le> f (sorted_reverse f xs ! p)"
proof -
  let ?s = "sort_key f (rev xs)"
  have len: "length ?s = length xs" by simp
  have srt: "sorted (map f ?s)" by (rule sorted_sort_key)
  have q: "sorted_reverse f xs ! q = ?s ! (length xs - Suc q)"
    using assms len by (simp add: sorted_reverse_def rev_nth)
  have p: "sorted_reverse f xs ! p = ?s ! (length xs - Suc p)"
    using assms len by (simp add: sorted_reverse_def rev_nth)
  have "map f ?s ! (length xs - Suc q) \<le> map f ?s ! (length xs - Suc p)"
    using assms len by (intro sorted_nth_mono [OF srt]) auto
  then show ?thesis using assms len by (simp add: p q)
qed

lemma sorted_filter_positions:
  fixes xs :: "nat list"
  assumes "sorted (filter P xs)" "i < j" "j < length xs" "P (xs ! i)" "P (xs ! j)"
  shows "xs ! i \<le> xs ! j"
proof -
  have i: "i < length xs" using assms by simp
  have xs: "xs = take i xs @ xs ! i # drop (Suc i) xs"
    using i by (rule id_take_nth_drop)
  have "xs ! j \<in> set (drop (Suc i) xs)"
  proof -
    have "drop (Suc i) xs ! (j - Suc i) = xs ! j" using assms by simp
    moreover have "j - Suc i < length (drop (Suc i) xs)" using assms by simp
    ultimately show ?thesis by (metis nth_mem)
  qed
  then have m: "xs ! j \<in> set (filter P (drop (Suc i) xs))" using assms by simp
  have "filter P xs = filter P (take i xs) @ xs ! i # filter P (drop (Suc i) xs)"
    using assms(4) by (subst xs) simp
  then have "sorted (xs ! i # filter P (drop (Suc i) xs))"
    using assms(1) by (simp add: sorted_append)
  then show ?thesis using m by simp
qed

lemma order_facts:
  "length (final_order resp n) = n"
  "set (final_order resp n) = {0..<n}"
  "distinct (final_order resp n)"
  by (simp_all add: final_order_def ranked_indices_def sorted_reverse_same run_facts)

lemma order_stable:
  assumes "p < n" "q < n"
    and "final_order resp n ! p < final_order resp n ! q"
    and "final_wins resp n ! (final_order resp n ! p) = final_wins resp n ! (final_order resp n ! q)"
  shows "p < q"
proof (rule ccontr)
  assume "\<not> p < q"
  let ?o = "final_order resp n"
  let ?k = "final_wins resp n ! (?o ! q)"
  let ?P = "\<lambda>y. final_wins resp n ! y = ?k"
  from \<open>\<not> p < q\<close> assms(3) have qp: "q < p" by (cases "p = q") auto
  have "filter ?P ?o = filter ?P [0..<n]"
    unfolding final_order_def ranked_indices_def run_facts
    by (rule sorted_reverse_stable)
  moreover have "sorted (filter ?P [0..<n])" by (simp add: sorted_wrt_filter)
  ultimately have s: "sorted (filter ?P ?o)" by simp
  have "?o ! q \<le> ?o ! p"
    using s qp assms by (intro sorted_filter_positions [of ?P]) (simp_all add: order_facts)
  with assms(3) show False by simp
qed

lemma order_desc:
  assumes "p < q" "q < n"
  shows "final_wins resp n ! (final_order resp n ! q) \<le> final_wins resp n ! (final_order resp n ! p)"
  unfolding final_order_def ranked_indices_def run_facts
  using assms by (intro sorted_reverse_desc) simp_all

lemma pairwise_closed:
  "rank_by_pairwise_comparison resp hyps =
     map (ranked_record hyps (final_wins resp (length hyps))
            (final_comparisons resp (length hyps)))
         (enumerate 0 (final_order resp (length hyps)))"
  by (simp add: rank_by_pairwise_comparison_def final_wins_def final_comparisons_def
        final_order_def split: prod.splits)

lemma ranked_record_fields:
  "map_of (ranked_record hyps ws cs (p, idx)) ''rank'' = Some (PInt (int p + 1))"
  "map_of (ranked_record hyps ws cs (p, idx)) ''wins'' = Some (PInt (int (ws ! idx)))"
  "map_of (ranked_record hyps ws cs (p, idx)) ''total_comparisons'' =
     Some (PInt (int (total_comparisons cs idx)))"
  by (simp_all add: ranked_record_def update_conv')

lemma pairwise_nth:
  assumes "p < length hyps"
  shows "rank_by_pairwise_comparison resp hyps ! p =
           ranked_record hyps (final_wins resp (length hyps))
             (final_comparisons resp (length hyps)) (p, final_order resp (length hyps) ! p)"
  using assms by (simp add: pairwise_closed order_facts nth_enumerate_eq)

lemma pairwise_ranks:
  "map (\<lambda>h. map_of h ''rank'') (rank_by_pairwise_comparison resp hyps) =
     map (\<lambda>r. Some (PInt (int r))) [1..<Suc (length hyps)]"
proof (rule nth_equalityI)
  show "length (map (\<lambda>h. map_of h ''rank'') (rank_by_pairwise_comparison resp hyps)) =
        length (map (\<lambda>r. Some (PInt (int r))) [1..<Suc (length hyps)])"
    by (simp add: pairwise_closed order_facts del: upt_Suc)
next
  fix p
  assume "p < length (map (\<lambda>h. map_of h ''rank'') (rank_by_pairwise_comparison resp hyps))"
  then have p: "p < length hyps" by (simp add: pairwise_closed order_facts)
  then have "map (\<lambda>h. map_of h ''rank'') (rank_by_pairwise_comparison resp hyps) ! p
             = map_of (rank_by_pairwise_comparison resp hyps ! p) ''rank''"
    by (simp add: pairwise_closed order_facts)
  also have "\<dots> = Some (PInt (int p + 1))"
    by (simp only: pairwise_nth [OF p] ranked_record_fields)
  also have "\<dots> = map (\<lambda>r. Some (PInt (int r))) [1..<Suc (length hyps)] ! p"
    using p by (simp add: nth_upt del: upt_Suc)
  finally show "map (\<lambda>h. map_of h ''rank'') (rank_by_pairwise_comparison resp hyps) ! p =
             map (\<lambda>r. Some (PInt (int r))) [1..<Suc (length hyps)] ! p" .
qed

text \<open>
  C1: the pairwise strategy returns one record per hypothesis, and the ranks of the
  returned list are 1, 2, ..., n in this order. The record at output position \<open>p\<close> is the
  hypothesis at input position \<open>final_order ! p\<close>, each input position occurring once, so
  the hypothesis at that input position has rank \<open>p + 1\<close>. Of two hypotheses with equal
  win counts, the one earlier in the input is earlier in the output, so it has the smaller
  rank; and win counts never increase along the output.
\<close>

theorem pairwise_ranks_contiguous_stable:
  "length (rank_by_pairwise_comparison resp hyps) = length hyps
   \<and> map (\<lambda>h. map_of h ''rank'') (rank_by_pairwise_comparison resp hyps) =
       map (\<lambda>r. Some (PInt (int r))) [1..<Suc (length hyps)]
   \<and> length (final_order resp (length hyps)) = length hyps
   \<and> set (final_order resp (length hyps)) = {0..<length hyps}
   \<and> distinct (final_order resp (length hyps))
   \<and> (\<forall>p < length hyps.
         rank_by_pairwise_comparison resp hyps ! p =
           ranked_record hyps (final_wins resp (length hyps))
             (final_comparisons resp (length hyps)) (p, final_order resp (length hyps) ! p)
         \<and> map_of (rank_by_pairwise_comparison resp hyps ! p) ''rank'' = Some (PInt (int p + 1))
         \<and> map_of (rank_by_pairwise_comparison resp hyps ! p) ''wins'' =
             Some (PInt (int (final_wins resp (length hyps)
                               ! (final_order resp (length hyps) ! p)))))
   \<and> (\<forall>p q. p < length hyps \<and> q < length hyps
         \<and> final_order resp (length hyps) ! p < final_order resp (length hyps) ! q
         \<and> final_wins resp (length hyps) ! (final_order resp (length hyps) ! p)
             = final_wins resp (length hyps) ! (final_order resp (length hyps) ! q)
         \<longrightarrow> p < q)
   \<and> (\<forall>p q. p < q \<and> q < length hyps
         \<longrightarrow> final_wins resp (length hyps) ! (final_order resp (length hyps) ! q)
             \<le> final_wins resp (length hyps) ! (final_order resp (length hyps) ! p))"
proof (intro conjI allI impI)
  show "length (rank_by_pairwise_comparison resp hyps) = length hyps"
    by (simp add: pairwise_closed order_facts)
  show "map (\<lambda>h. map_of h ''rank'') (rank_by_pairwise_comparison resp hyps) =
       map (\<lambda>r. Some (PInt (int r))) [1..<Suc (length hyps)]"
    by (rule pairwise_ranks)
  show "length (final_order resp (length hyps)) = length hyps" by (rule order_facts)
  show "set (final_order resp (length hyps)) = {0..<length hyps}" by (rule order_facts)
  show "distinct (final_order resp (length hyps))" by (rule order_facts)
next
  fix p assume p: "p < length hyps"
  show "rank_by_pairwise_comparison resp hyps ! p =
           ranked_record hyps (final_wins resp (length hyps))
             (final_comparisons resp (length hyps)) (p, final_order resp (length hyps) ! p)"
    by (rule pairwise_nth [OF p])
  show "map_of (rank_by_pairwise_comparison resp hyps ! p) ''rank'' = Some (PInt (int p + 1))"
    by (simp only: pairwise_nth [OF p] ranked_record_fields)
  show "map_of (rank_by_pairwise_comparison resp hyps ! p) ''wins'' =
             Some (PInt (int (final_wins resp (length hyps)
                               ! (final_order resp (length hyps) ! p))))"
    by (simp only: pairwise_nth [OF p] ranked_record_fields)
next
  fix p q
  assume "p < length hyps \<and> q < length hyps
         \<and> final_order resp (length hyps) ! p < final_order resp (length hyps) ! q
         \<and> final_wins resp (length hyps) ! (final_order resp (length hyps) ! p)
             = final_wins resp (length hyps) ! (final_order resp (length hyps) ! q)"
  then show "p < q" using order_stable [of p "length hyps" q resp] by blast
next
  fix p q :: nat
  assume "p < q \<and> q < length hyps"
  then show "final_wins resp (length hyps) ! (final_order resp (length hyps) ! q)
             \<le> final_wins resp (length hyps) ! (final_order resp (length hyps) ! p)"
    using order_desc [of p q "length hyps" resp] by blast
qed

text \<open>
  C5: the pairwise strategy issues one judgment for each pair \<open>(i, j)\<close> with \<open>i < j < n\<close>,
  that is n(n-1)/2 judgments, each with winner 1, 2 or 0. One judgment leaves the win
  counts alone on a tie and otherwise adds one to the count of the winner only, so the
  win counts sum to the number of judgments that are not ties. Every returned record has
  \<open>total_comparisons\<close> n - 1.
\<close>

theorem pairwise_comparisons_counted:
  "length (final_comparisons resp (length hyps)) = length hyps * (length hyps - 1) div 2
   \<and> map (\<lambda>c. (hypothesis1_idx c, hypothesis2_idx c)) (final_comparisons resp (length hyps))
       = pairs (length hyps)
   \<and> (\<forall>c \<in> set (final_comparisons resp (length hyps)). winner c \<in> {0, 1, 2})
   \<and> (\<exists>w r. compare_step resp (ws, cs) (i, j) =
                (if w = 1 then ws[i := ws ! i + 1]
                 else if w = 2 then ws[j := ws ! j + 1] else ws,
                 cs @ [\<lparr>hypothesis1_idx = i, hypothesis2_idx = j, winner = w, reasoning = r\<rparr>])
              \<and> w \<in> {0, 1, 2})
   \<and> sum_list (final_wins resp (length hyps)) =
       length (filter (\<lambda>c. winner c \<noteq> 0) (final_comparisons resp (length hyps)))
   \<and> (\<forall>h \<in> set (rank_by_pairwise_comparison resp hyps).
         map_of h ''total_comparisons'' = Some (PInt (int (length hyps - 1))))"
proof (intro conjI ballI)
  have "length (final_comparisons resp (length hyps))
        = length (map (\<lambda>c. (hypothesis1_idx c, hypothesis2_idx c))
                    (final_comparisons resp (length hyps)))"
    by simp
  also have "\<dots> = length hyps * (length hyps - 1) div 2"
    by (simp only: run_facts length_pairs)
  finally show "length (final_comparisons resp (length hyps))
                = length hyps * (length hyps - 1) div 2" .
  show "map (\<lambda>c. (hypothesis1_idx c, hypothesis2_idx c)) (final_comparisons resp (length hyps))
       = pairs (length hyps)"
    by (rule run_facts)
  show "sum_list (final_wins resp (length hyps)) =
       length (filter (\<lambda>c. winner c \<noteq> 0) (final_comparisons resp (length hyps)))"
    by (rule run_facts)
  show "\<exists>w r. compare_step resp (ws, cs) (i, j) =
                (if w = 1 then ws[i := ws ! i + 1]
                 else if w = 2 then ws[j := ws ! j + 1] else ws,
                 cs @ [\<lparr>hypothesis1_idx = i, hypothesis2_idx = j, winner = w, reasoning = r\<rparr>])
              \<and> w \<in> {0, 1, 2}"
    using determine_winner_cases [of "resp (length cs)" 1 2]
    by (intro exI [of _ "determine_winner (resp (length cs)) 1 2"] exI [of _ "resp (length cs)"])
       (auto simp: Let_def)
next
  fix c assume "c \<in> set (final_comparisons resp (length hyps))"
  then show "winner c \<in> {0, 1, 2}" using run_facts(4) by blast
next
  fix h assume "h \<in> set (rank_by_pairwise_comparison resp hyps)"
  then obtain p where p: "p < length hyps" and h: "h = rank_by_pairwise_comparison resp hyps ! p"
    by (metis in_set_conv_nth pairwise_closed length_map length_enumerate order_facts(1))
  have idx: "final_order resp (length hyps) ! p < length hyps"
    using p order_facts [of resp "length hyps"] by (metis atLeastLessThan_iff nth_mem)
  show "map_of h ''total_comparisons'' = Some (PInt (int (length hyps - 1)))"
    unfolding h pairwise_nth [OF p] ranked_record_fields
    by (simp only: total_comparisons_eq [OF idx])
qed

subsection \<open>A tournament of three\<close>

lemma winner_none: "determine_winner '''' 1 2 = 0"
  by (simp add: determine_winner_def Let_def str_int_small last_n_def)

lemma winner_second: "determine_winner ''Hypothesis 2 is superior'' 1 2 = 2"
  by (simp add: determine_winner_def Let_def str_int_small)

lemma pairs_3: "pairs 3 = [(0, 1), (0, 2), (1, 2)]"
  by code_simp

lemma run_3:
  "run_comparisons (\<lambda>k. if k = 0 then '''' else ''Hypothesis 2 is superior'') 3 =
   ([0, 0, 2],
    [\<lparr>hypothesis1_idx = 0, hypothesis2_idx = 1, winner = 0, reasoning = ''''\<rparr>,
     \<lparr>hypothesis1_idx = 0, hypothesis2_idx = 2, winner = 2,
       reasoning = ''Hypothesis 2 is superior''\<rparr>,
     \<lparr>hypothesis1_idx = 1, hypothesis2_idx = 2, winner = 2,
       reasoning = ''Hypothesis 2 is superior''\<rparr>])"
  unfolding run_comparisons_def pairs_3
  by (simp add: winner_none winner_second numeral_3_eq_3 numeral_2_eq_2 Let_def)

lemma order_3: "ranked_indices [0, 0, 2] = [2, 0, 1]"
  by code_simp

lemma three_run:
  "final_wins (\<lambda>k. if k = 0 then '''' else ''Hypothesis 2 is superior'')
     (length [[(''statement'', PStr ''a'')], [(''statement'', PStr ''b'')],
              [(''statement'', PStr ''c'')]]) = [0, 0, 2]"
  "final_comparisons (\<lambda>k. if k = 0 then '''' else ''Hypothesis 2 is superior'')
     (length [[(''statement'', PStr ''a'')], [(''statement'', PStr ''b'')],
              [(''statement'', PStr ''c'')]]) =
    [\<lparr>hypothesis1_idx = 0, hypothesis2_idx = 1, winner = 0, reasoning = ''''\<rparr>,
     \<lparr>hypothesis1_idx = 0, hypothesis2_idx = 2, winner = 2,
       reasoning = ''Hypothesis 2 is superior''\<rparr>,
     \<lparr>hypothesis1_idx = 1, hypothesis2_idx = 2, winner = 2,
       reasoning = ''Hypothesis 2 is superior''\<rparr>]"
proof -
  have l: "length [[(''statement'', PStr ''a'')], [(''statement'', PStr ''b'')],
              [(''statement'', PStr ''c'')]] = 3"
    by simp
  show "final_wins (\<lambda>k. if k = 0 then '''' else ''Hypothesis 2 is superior'')
     (length [[(''statement'', PStr ''a'')], [(''statement'', PStr ''b'')],
              [(''statement'', PStr ''c'')]]) = [0, 0, 2]"
    unfolding l final_wins_def run_3 by simp
  show "final_comparisons (\<lambda>k. if k = 0 then '''' else ''Hypothesis 2 is superior'')
     (length [[(''statement'', PStr ''a'')], [(''statement'', PStr ''b'')],
              [(''statement'', PStr ''c'')]]) =
    [\<lparr>hypothesis1_idx = 0, hypothesis2_idx = 1, winner = 0, reasoning = ''''\<rparr>,
     \<lparr>hypothesis1_idx = 0, hypothesis2_idx = 2, winner = 2,
       reasoning = ''Hypothesis 2 is superior''\<rparr>,
     \<lparr>hypothesis1_idx = 1, hypothesis2_idx = 2, winner = 2,
       reasoning = ''Hypothesis 2 is superior''\<rparr>]"
    unfolding l final_comparisons_def run_3 by simp
qed

lemma three_order:
  "final_order (\<lambda>k. if k = 0 then '''' else ''Hypothesis 2 is superior'')
     (length [[(''statement'', PStr ''a'')], [(''statement'', PStr ''b'')],
              [(''statement'', PStr ''c'')]]) = [2, 0, 1]"
  unfolding final_order_def three_run by (rule order_3)

lemma three_ranked:
  "rank_by_pairwise_comparison (\<lambda>k. if k = 0 then '''' else ''Hypothesis 2 is superior'')
     [[(''statement'', PStr ''a'')], [(''statement'', PStr ''b'')],
      [(''statement'', PStr ''c'')]] =
   [[(''statement'', PStr ''c''), (''rank'', PInt 1), (''wins'', PInt 2),
     (''total_comparisons'', PInt 2)],
    [(''statement'', PStr ''a''), (''rank'', PInt 2), (''wins'', PInt 0),
     (''total_comparisons'', PInt 2)],
    [(''statement'', PStr ''b''), (''rank'', PInt 3), (''wins'', PInt 0),
     (''total_comparisons'', PInt 2)]]"
  unfolding pairwise_closed three_run three_order
  by (simp add: enumerate_eq_zip ranked_record_def total_comparisons_def upt_rec)

theorem pairwise_ranks_contiguous_stable_witness:
  "final_wins (\<lambda>k. if k = 0 then '''' else ''Hypothesis 2 is superior'')
     (length [[(''statement'', PStr ''a'')], [(''statement'', PStr ''b'')],
              [(''statement'', PStr ''c'')]]) = [0, 0, 2]
   \<and> final_order (\<lambda>k. if k = 0 then '''' else ''Hypothesis 2 is superior'')
     (length [[(''statement'', PStr ''a'')], [(''statement'', PStr ''b'')],
              [(''statement'', PStr ''c'')]]) = [2, 0, 1]
   \<and> rank_by_pairwise_comparison (\<lambda>k. if k = 0 then '''' else ''Hypothesis 2 is superior'')
     [[(''statement'', PStr ''a'')], [(''statement'', PStr ''b'')],
      [(''statement'', PStr ''c'')]] =
   [[(''statement'', PStr ''c''), (''rank'', PInt 1), (''wins'', PInt 2),
     (''total_comparisons'', PInt 2)],
    [(''statement'', PStr ''a''), (''rank'', PInt 2), (''wins'', PInt 0),
     (''total_comparisons'', PInt 2)],
    [(''statement'', PStr ''b''), (''rank'', PInt 3), (''wins'', PInt 0),
     (''total_comparisons'', PInt 2)]]"
  using pairwise_ranks_contiguous_stable
    [of "\<lambda>k. if k = 0 then '''' else ''Hypothesis 2 is superior''"
        "[[(''statement'', PStr ''a'')], [(''statement'', PStr ''b'')],
          [(''statement'', PStr ''c'')]]"]
  by (simp only: three_run three_order three_ranked simp_thms)

theorem pairwise_comparisons_counted_witness:
  "length (final_comparisons (\<lambda>k. if k = 0 then '''' else ''Hypothesis 2 is superior'')
     (length [[(''statement'', PStr ''a'')], [(''statement'', PStr ''b'')],
              [(''statement'', PStr ''c'')]])) = 3 * (3 - 1) div 2
   \<and> sum_list (final_wins (\<lambda>k. if k = 0 then '''' else ''Hypothesis 2 is superior'')
     (length [[(''statement'', PStr ''a'')], [(''statement'', PStr ''b'')],
              [(''statement'', PStr ''c'')]])) = 2
   \<and> map (\<lambda>h. map_of h ''total_comparisons'')
        (rank_by_pairwise_comparison
                    (\<lambda>k. if k = 0 then '''' else ''Hypothesis 2 is superior'')
                    [[(''statement'', PStr ''a'')], [(''statement'', PStr ''b'')],
                     [(''statement'', PStr ''c'')]])
       = [Some (PInt 2), Some (PInt 2), Some (PInt 2)]"
proof -
  have "length (final_comparisons (\<lambda>k. if k = 0 then '''' else ''Hypothesis 2 is superior'')
     (length [[(''statement'', PStr ''a'')], [(''statement'', PStr ''b'')],
              [(''statement'', PStr ''c'')]])) = 3 * (3 - 1) div 2"
    unfolding three_run by simp
  moreover have "sum_list (final_wins (\<lambda>k. if k = 0 then '''' else ''Hypothesis 2 is superior'')
     (length [[(''statement'', PStr ''a'')], [(''statement'', PStr ''b'')],
              [(''statement'', PStr ''c'')]])) = 2"
    unfolding three_run by simp
  moreover have "map (\<lambda>h. map_of h ''total_comparisons'')
        (rank_by_pairwise_comparison
                    (\<lambda>k. if k = 0 then '''' else ''Hypothesis 2 is superior'')
                    [[(''statement'', PStr ''a'')], [(''statement'', PStr ''b'')],
                     [(''statement'', PStr ''c'')]])
       = [Some (PInt 2), Some (PInt 2), Some (PInt 2)]"
    unfolding three_ranked by simp
  ultimately show ?thesis
    using pairwise_comparisons_counted
      [where resp = "\<lambda>k. if k = 0 then '''' else ''Hypothesis 2 is superior''"
         and hyps = "[[(''statement'', PStr ''a'')], [(''statement'', PStr ''b'')],
                      [(''statement'', PStr ''c'')]]"]
    by (simp only: simp_thms)
qed

section \<open>Evolution: individual variants and one combination\<close>

lemma sort_by_rank_ok:
  "\<forall>h \<in> set hs. rank_key h \<noteq> None
   \<Longrightarrow> sort_by_rank hs = Inr (sort_key (\<lambda>h. the (rank_key h)) hs)"
  by (simp add: sort_by_rank_def list_all_iff)

lemma evolve_loop_ok:
  "\<forall>h \<in> set hs. evolvable h
   \<Longrightarrow> evolve_loop resp idx hs =
         Inr (map (\<lambda>(i, h). individual_record h (resp i)) (enumerate idx hs))"
  by (induction hs arbitrary: idx) (auto simp: evolvable_def split: option.splits)

lemma combine_ok:
  assumes "evolvable hyp1" "evolvable hyp2"
  shows "combine r hyp1 hyp2 =
     Inr (AList.update ''parent_hypotheses''
            (PList [the (map_of hyp1 ''statement''), the (map_of hyp2 ''statement'')])
            (AList.update ''evolution_type'' (PStr ''hypothesis_combination'')
              (AList.update ''original_ranks'' (PList [rank_or_none hyp1, rank_or_none hyp2])
                 (parse_evolved_hypothesis r None))))"
  using assms by (auto simp: combine_def evolvable_def split: option.splits)

lemma set_section_keys:
  assumes "{''statement'', ''rationale'', ''evidence'', ''assumptions'', ''validation''}
           \<subseteq> set (map fst d)"
  shows "map fst (set_section s d) = map fst d"
  using assms by (simp add: set_section_def Let_def update_keys)

lemma fold_section_keys:
  assumes "{''statement'', ''rationale'', ''evidence'', ''assumptions'', ''validation''}
           \<subseteq> set (map fst d)"
  shows "map fst (foldl (\<lambda>d s. set_section s d) d secs) = map fst d"
  using assms
proof (induction secs arbitrary: d)
  case Nil
  show ?case by simp
next
  case (Cons s secs)
  have k: "map fst (set_section s d) = map fst d" by (rule set_section_keys [OF Cons.prems])
  have "map fst (foldl (\<lambda>d s. set_section s d) (set_section s d) secs)
        = map fst (set_section s d)"
    by (rule Cons.IH) (simp only: k Cons.prems)
  then show ?case by (simp add: k)
qed

lemma parse_blank_keys:
  "map fst (parse_evolved_hypothesis t None) =
     [''statement'', ''rationale'', ''evidence'', ''assumptions'', ''validation'',
      ''evolution_text'']"
  unfolding parse_evolved_hypothesis_def Let_def option.case
  by (subst fold_section_keys) simp_all

lemma hybrid_keys:
  assumes "combine r hyp1 hyp2 = Inr hybrid"
  shows "map fst hybrid =
     [''statement'', ''rationale'', ''evidence'', ''assumptions'', ''validation'',
      ''evolution_text'', ''original_ranks'', ''evolution_type'', ''parent_hypotheses'']"
proof -
  from assms have "hybrid = AList.update ''parent_hypotheses''
            (PList [the (map_of hyp1 ''statement''), the (map_of hyp2 ''statement'')])
            (AList.update ''evolution_type'' (PStr ''hypothesis_combination'')
              (AList.update ''original_ranks'' (PList [rank_or_none hyp1, rank_or_none hyp2])
                 (parse_evolved_hypothesis r None)))"
    by (auto simp: combine_def split: option.splits if_splits)
  then show ?thesis by (simp add: update_keys parse_blank_keys)
qed

lemma individual_type:
  "map_of (individual_record h r) ''evolution_type'' = Some (PStr ''individual_refinement'')"
  by (simp add: individual_record_def update_conv')

lemma hybrid_fields:
  assumes "combine r hyp1 hyp2 = Inr hybrid"
  shows "map_of hybrid ''evolution_type'' = Some (PStr ''hypothesis_combination'')"
    and "map_of hybrid ''parent_hypotheses'' =
           Some (PList [the (map_of hyp1 ''statement''), the (map_of hyp2 ''statement'')])"
proof -
  from assms have h: "hybrid = AList.update ''parent_hypotheses''
            (PList [the (map_of hyp1 ''statement''), the (map_of hyp2 ''statement'')])
            (AList.update ''evolution_type'' (PStr ''hypothesis_combination'')
              (AList.update ''original_ranks'' (PList [rank_or_none hyp1, rank_or_none hyp2])
                 (parse_evolved_hypothesis r None)))"
    by (auto simp: combine_def split: option.splits if_splits)
  show "map_of hybrid ''evolution_type'' = Some (PStr ''hypothesis_combination'')"
    unfolding h by (simp add: update_conv')
  show "map_of hybrid ''parent_hypotheses'' =
           Some (PList [the (map_of hyp1 ''statement''), the (map_of hyp2 ''statement'')])"
    unfolding h by (simp add: update_conv')
qed

lemma split_empty: "split_str sep '''' = ['''']"
  by simp

lemma set_section_empty: "set_section '''' d = d"
  by (simp add: set_section_def lower_def)

lemma parse_empty_none:
  "parse_evolved_hypothesis '''' None =
     [(''statement'', PStr ''''), (''rationale'', PStr ''''), (''evidence'', PStr ''''),
      (''assumptions'', PStr ''''), (''validation'', PStr ''''), (''evolution_text'', PStr '''')]"
  unfolding parse_evolved_hypothesis_def Let_def option.case split_empty
  by (simp add: set_section_empty)

lemma parse_empty_some:
  "h \<noteq> [] \<Longrightarrow>
   parse_evolved_hypothesis '''' (Some h) =
     foldl (\<lambda>d key. AList.delete key d)
       (dict_merge h
          [(''statement'', PStr ''''), (''rationale'', PStr ''''), (''evidence'', PStr ''''),
           (''assumptions'', PStr ''''), (''validation'', PStr ''''),
           (''evolution_text'', PStr '''')])
       [''review'', ''assessment_summary'', ''rank'', ''scores'', ''evaluation'',
        ''overall_score'', ''wins'']"
  unfolding parse_evolved_hypothesis_def Let_def option.case split_empty
  by (simp only: if_False foldl.simps set_section_empty)

text \<open>
  C6, as the code has it: when every input hypothesis has the five text keys, a rationale
  the prompt can slice, a review (if any) it can truncate and a numeric rank (if any),
  Evolution sorts the hypotheses by rank, ascending and stably, a hypothesis without rank
  after every ranked one, and returns exactly min(3, n) individually refined variants, one
  for each of the first min(3, n) sorted hypotheses in order, followed, when n is at least
  2, by exactly one combination variant. The combination variant has nine keys; its
  \<open>parent_hypotheses\<close> is the two-element list of the statements of the first and the
  second sorted hypothesis. No key of it holds an identifier of a parent.
\<close>

theorem evolution_variants:
  assumes "\<forall>h \<in> set ranked. evolvable h"
  shows "\<exists>sorted_hypotheses individual.
           sort_by_rank ranked = Inr sorted_hypotheses
           \<and> length sorted_hypotheses = length ranked
           \<and> set sorted_hypotheses = set ranked
           \<and> sorted (map (\<lambda>h. the (rank_key h)) sorted_hypotheses)
           \<and> (\<forall>k. filter (\<lambda>h. the (rank_key h) = k) sorted_hypotheses =
                    filter (\<lambda>h. the (rank_key h) = k) ranked)
           \<and> length individual = min 3 (length ranked)
           \<and> (\<forall>i < length individual.
                 individual ! i = individual_record (sorted_hypotheses ! i) (resp i)
                 \<and> map_of (individual ! i) ''evolution_type'' =
                     Some (PStr ''individual_refinement''))
           \<and> (if 2 \<le> length ranked
               then \<exists>hybrid.
                      evolution_process resp ranked = Inr (individual @ [hybrid])
                      \<and> map_of hybrid ''evolution_type'' = Some (PStr ''hypothesis_combination'')
                      \<and> map_of hybrid ''parent_hypotheses'' =
                          Some (PList [the (map_of (sorted_hypotheses ! 0) ''statement''),
                                       the (map_of (sorted_hypotheses ! 1) ''statement'')])
                      \<and> map fst hybrid =
                          [''statement'', ''rationale'', ''evidence'', ''assumptions'',
                           ''validation'', ''evolution_text'', ''original_ranks'',
                           ''evolution_type'', ''parent_hypotheses'']
                      \<and> length (filter (\<lambda>v. map_of v ''evolution_type'' =
                                              Some (PStr ''hypothesis_combination''))
                                 (individual @ [hybrid])) = 1
               else evolution_process resp ranked = Inr individual)"
proof -
  define sorted_hypotheses where "sorted_hypotheses = sort_key (\<lambda>h. the (rank_key h)) ranked"
  define top where "top = take (min 3 (length sorted_hypotheses)) sorted_hypotheses"
  define individual where
    "individual = map (\<lambda>(i, h). individual_record h (resp i)) (enumerate 0 top)"
  have rk: "\<forall>h \<in> set ranked. rank_key h \<noteq> None" using assms by (simp add: evolvable_def)
  have s: "sort_by_rank ranked = Inr sorted_hypotheses"
    unfolding sorted_hypotheses_def by (rule sort_by_rank_ok [OF rk])
  have ls: "length sorted_hypotheses = length ranked" and ss: "set sorted_hypotheses = set ranked"
    by (simp_all add: sorted_hypotheses_def)
  have ev_top: "\<forall>h \<in> set top. evolvable h"
    using assms ss by (auto simp: top_def dest: in_set_takeD)
  have el: "evolve_loop resp 0 top = Inr individual"
    unfolding individual_def by (rule evolve_loop_ok [OF ev_top])
  have lt: "length top = min 3 (length ranked)" by (simp add: top_def ls)
  have li: "length individual = min 3 (length ranked)" by (simp add: individual_def lt)
  have ni: "individual ! i = individual_record (sorted_hypotheses ! i) (resp i)"
    if "i < length individual" for i
  proof -
    have it: "i < length top" using that li lt by simp
    then have "individual ! i = individual_record (top ! i) (resp i)"
      by (simp add: individual_def nth_enumerate_eq)
    moreover have "top ! i = sorted_hypotheses ! i" using it by (simp add: top_def)
    ultimately show ?thesis by simp
  qed
  have ti: "\<forall>i < length individual.
                 individual ! i = individual_record (sorted_hypotheses ! i) (resp i)
                 \<and> map_of (individual ! i) ''evolution_type'' =
                     Some (PStr ''individual_refinement'')"
    using ni by (simp add: individual_type)
  have no_comb: "filter (\<lambda>v. map_of v ''evolution_type'' =
                              Some (PStr ''hypothesis_combination'')) individual = []"
  proof -
    have "\<forall>v \<in> set individual. map_of v ''evolution_type'' \<noteq>
                              Some (PStr ''hypothesis_combination'')"
      by (auto simp: individual_def individual_type)
    then show ?thesis by (simp add: filter_empty_conv)
  qed
  have tail: "if 2 \<le> length ranked
               then \<exists>hybrid.
                      evolution_process resp ranked = Inr (individual @ [hybrid])
                      \<and> map_of hybrid ''evolution_type'' = Some (PStr ''hypothesis_combination'')
                      \<and> map_of hybrid ''parent_hypotheses'' =
                          Some (PList [the (map_of (sorted_hypotheses ! 0) ''statement''),
                                       the (map_of (sorted_hypotheses ! 1) ''statement'')])
                      \<and> map fst hybrid =
                          [''statement'', ''rationale'', ''evidence'', ''assumptions'',
                           ''validation'', ''evolution_text'', ''original_ranks'',
                           ''evolution_type'', ''parent_hypotheses'']
                      \<and> length (filter (\<lambda>v. map_of v ''evolution_type'' =
                                              Some (PStr ''hypothesis_combination''))
                                 (individual @ [hybrid])) = 1
               else evolution_process resp ranked = Inr individual"
  proof (cases "2 \<le> length ranked")
    case False
    then have "\<not> 2 \<le> length top" using lt by simp
    then have "evolution_process resp ranked = Inr individual"
      by (simp add: evolution_process_def s Let_def top_def [symmetric] el)
    with False show ?thesis by simp
  next
    case True
    then have l2: "2 \<le> length top" using lt by simp
    have m: "0 < min 3 (length sorted_hypotheses)" "1 < min 3 (length sorted_hypotheses)"
      using True ls by auto
    have t0: "top ! 0 = sorted_hypotheses ! 0" and t1: "top ! 1 = sorted_hypotheses ! 1"
      unfolding top_def by (rule nth_take, rule m)+
    have lt0: "0 < length top" and lt1: "1 < length top" using l2 by auto
    have "top ! 0 \<in> set top" by (rule nth_mem [OF lt0])
    moreover have "top ! 1 \<in> set top" by (rule nth_mem [OF lt1])
    ultimately have "top ! 0 \<in> set top" and "top ! 1 \<in> set top" by blast+
    then have e0: "evolvable (top ! 0)" and e1: "evolvable (top ! 1)" using ev_top by blast+
    define hybrid where
      "hybrid = AList.update ''parent_hypotheses''
            (PList [the (map_of (top ! 0) ''statement''), the (map_of (top ! 1) ''statement'')])
            (AList.update ''evolution_type'' (PStr ''hypothesis_combination'')
              (AList.update ''original_ranks''
                 (PList [rank_or_none (top ! 0), rank_or_none (top ! 1)])
                 (parse_evolved_hypothesis (resp (min 3 (length sorted_hypotheses))) None)))"
    have c: "combine (resp (min 3 (length sorted_hypotheses))) (top ! 0) (top ! 1) = Inr hybrid"
      unfolding hybrid_def by (rule combine_ok [OF e0 e1])
    have p: "evolution_process resp ranked = Inr (individual @ [hybrid])"
      using l2 c by (simp add: evolution_process_def s Let_def top_def [symmetric] el)
    have f: "map_of hybrid ''evolution_type'' = Some (PStr ''hypothesis_combination'')"
      by (rule hybrid_fields [OF c])
    have "map_of hybrid ''parent_hypotheses'' =
            Some (PList [the (map_of (top ! 0) ''statement''), the (map_of (top ! 1) ''statement'')])"
      by (rule hybrid_fields [OF c])
    then have g: "map_of hybrid ''parent_hypotheses'' =
            Some (PList [the (map_of (sorted_hypotheses ! 0) ''statement''),
                         the (map_of (sorted_hypotheses ! 1) ''statement'')])"
      by (simp only: t0 t1)
    have k: "map fst hybrid =
                          [''statement'', ''rationale'', ''evidence'', ''assumptions'',
                           ''validation'', ''evolution_text'', ''original_ranks'',
                           ''evolution_type'', ''parent_hypotheses'']"
      by (rule hybrid_keys [OF c])
    have n: "length (filter (\<lambda>v. map_of v ''evolution_type'' =
                                              Some (PStr ''hypothesis_combination''))
                                 (individual @ [hybrid])) = 1"
      by (simp add: no_comb f)
    from p f g k n have "\<exists>hybrid.
                      evolution_process resp ranked = Inr (individual @ [hybrid])
                      \<and> map_of hybrid ''evolution_type'' = Some (PStr ''hypothesis_combination'')
                      \<and> map_of hybrid ''parent_hypotheses'' =
                          Some (PList [the (map_of (sorted_hypotheses ! 0) ''statement''),
                                       the (map_of (sorted_hypotheses ! 1) ''statement'')])
                      \<and> map fst hybrid =
                          [''statement'', ''rationale'', ''evidence'', ''assumptions'',
                           ''validation'', ''evolution_text'', ''original_ranks'',
                           ''evolution_type'', ''parent_hypotheses'']
                      \<and> length (filter (\<lambda>v. map_of v ''evolution_type'' =
                                              Some (PStr ''hypothesis_combination''))
                                 (individual @ [hybrid])) = 1"
      by (intro exI [of _ hybrid] conjI)
    with True show ?thesis by (simp only: if_True)
  qed
  have ord: "sorted (map (\<lambda>h. the (rank_key h)) sorted_hypotheses)"
    unfolding sorted_hypotheses_def by (rule sorted_sort_key)
  have stable: "\<forall>k. filter (\<lambda>h. the (rank_key h) = k) sorted_hypotheses =
                    filter (\<lambda>h. the (rank_key h) = k) ranked"
    unfolding sorted_hypotheses_def by (intro allI sort_key_stable)
  from s ls ss ord stable li ti tail show ?thesis
    by (intro exI [of _ sorted_hypotheses] exI [of _ individual] conjI)
qed



lemma two_sorted:
  "sort_by_rank
     [[(''id'', PInt 7), (''statement'', PStr ''a''), (''rationale'', PStr ''ra''),
       (''evidence'', PStr ''ea''), (''assumptions'', PStr ''aa''),
       (''validation'', PStr ''va''), (''rank'', PInt 2)],
      [(''id'', PInt 8), (''statement'', PStr ''b''), (''rationale'', PStr ''rb''),
       (''evidence'', PStr ''eb''), (''assumptions'', PStr ''ab''),
       (''validation'', PStr ''vb''), (''rank'', PInt 1)]] =
   Inr [[(''id'', PInt 8), (''statement'', PStr ''b''), (''rationale'', PStr ''rb''),
         (''evidence'', PStr ''eb''), (''assumptions'', PStr ''ab''),
         (''validation'', PStr ''vb''), (''rank'', PInt 1)],
        [(''id'', PInt 7), (''statement'', PStr ''a''), (''rationale'', PStr ''ra''),
         (''evidence'', PStr ''ea''), (''assumptions'', PStr ''aa''),
         (''validation'', PStr ''va''), (''rank'', PInt 2)]]"
  by (simp add: sort_by_rank_def rank_key_def num_of_def)

lemma two_evolvable:
  "list_all evolvable
     [[(''id'', PInt 7), (''statement'', PStr ''a''), (''rationale'', PStr ''ra''),
       (''evidence'', PStr ''ea''), (''assumptions'', PStr ''aa''),
       (''validation'', PStr ''va''), (''rank'', PInt 2)],
      [(''id'', PInt 8), (''statement'', PStr ''b''), (''rationale'', PStr ''rb''),
       (''evidence'', PStr ''eb''), (''assumptions'', PStr ''ab''),
       (''validation'', PStr ''vb''), (''rank'', PInt 1)]]"
  by (simp add: evolvable_def sliceable_def rank_key_def num_of_def)

theorem evolution_variants_witness:
  "list_all evolvable
     [[(''id'', PInt 7), (''statement'', PStr ''a''), (''rationale'', PStr ''ra''),
       (''evidence'', PStr ''ea''), (''assumptions'', PStr ''aa''),
       (''validation'', PStr ''va''), (''rank'', PInt 2)],
      [(''id'', PInt 8), (''statement'', PStr ''b''), (''rationale'', PStr ''rb''),
       (''evidence'', PStr ''eb''), (''assumptions'', PStr ''ab''),
       (''validation'', PStr ''vb''), (''rank'', PInt 1)]]
   \<and> (\<exists>individual hybrid.
         evolution_process (\<lambda>k. '''')
           [[(''id'', PInt 7), (''statement'', PStr ''a''), (''rationale'', PStr ''ra''),
             (''evidence'', PStr ''ea''), (''assumptions'', PStr ''aa''),
             (''validation'', PStr ''va''), (''rank'', PInt 2)],
            [(''id'', PInt 8), (''statement'', PStr ''b''), (''rationale'', PStr ''rb''),
             (''evidence'', PStr ''eb''), (''assumptions'', PStr ''ab''),
             (''validation'', PStr ''vb''), (''rank'', PInt 1)]] =
           Inr (individual @ [hybrid])
         \<and> length individual = 2
         \<and> map_of hybrid ''parent_hypotheses'' = Some (PList [PStr ''b'', PStr ''a'']))"
proof -
  let ?H = "[[(''id'', PInt 7), (''statement'', PStr ''a''), (''rationale'', PStr ''ra''),
       (''evidence'', PStr ''ea''), (''assumptions'', PStr ''aa''),
       (''validation'', PStr ''va''), (''rank'', PInt 2)],
      [(''id'', PInt 8), (''statement'', PStr ''b''), (''rationale'', PStr ''rb''),
       (''evidence'', PStr ''eb''), (''assumptions'', PStr ''ab''),
       (''validation'', PStr ''vb''), (''rank'', PInt 1)]]"
  have e: "\<forall>h \<in> set ?H. evolvable h"
    using two_evolvable unfolding list_all_iff .
  from evolution_variants [OF e, of "\<lambda>k. ''''"]
  obtain sorted_hypotheses individual where s: "sort_by_rank ?H = Inr sorted_hypotheses"
    and l: "length individual = min 3 (length ?H)"
    and t: "if 2 \<le> length ?H
               then \<exists>hybrid.
                      evolution_process (\<lambda>k. '''') ?H = Inr (individual @ [hybrid])
                      \<and> map_of hybrid ''evolution_type'' = Some (PStr ''hypothesis_combination'')
                      \<and> map_of hybrid ''parent_hypotheses'' =
                          Some (PList [the (map_of (sorted_hypotheses ! 0) ''statement''),
                                       the (map_of (sorted_hypotheses ! 1) ''statement'')])
                      \<and> map fst hybrid =
                          [''statement'', ''rationale'', ''evidence'', ''assumptions'',
                           ''validation'', ''evolution_text'', ''original_ranks'',
                           ''evolution_type'', ''parent_hypotheses'']
                      \<and> length (filter (\<lambda>v. map_of v ''evolution_type'' =
                                              Some (PStr ''hypothesis_combination''))
                                 (individual @ [hybrid])) = 1
               else evolution_process (\<lambda>k. '''') ?H = Inr individual"
    by (elim exE conjE)
  have two: "2 \<le> length ?H" by simp
  from t two obtain hybrid where
    p: "evolution_process (\<lambda>k. '''') ?H = Inr (individual @ [hybrid])"
    and g: "map_of hybrid ''parent_hypotheses'' =
                          Some (PList [the (map_of (sorted_hypotheses ! 0) ''statement''),
                                       the (map_of (sorted_hypotheses ! 1) ''statement'')])"
    by (simp only: if_True) blast
  have srt: "sorted_hypotheses =
       [[(''id'', PInt 8), (''statement'', PStr ''b''), (''rationale'', PStr ''rb''),
         (''evidence'', PStr ''eb''), (''assumptions'', PStr ''ab''),
         (''validation'', PStr ''vb''), (''rank'', PInt 1)],
        [(''id'', PInt 7), (''statement'', PStr ''a''), (''rationale'', PStr ''ra''),
         (''evidence'', PStr ''ea''), (''assumptions'', PStr ''aa''),
         (''validation'', PStr ''va''), (''rank'', PInt 2)]]"
    using s unfolding two_sorted by simp
  have g': "map_of hybrid ''parent_hypotheses'' = Some (PList [PStr ''b'', PStr ''a''])"
    unfolding g srt by simp
  have l': "length individual = 2" using l by simp
  from p l' g' have "\<exists>individual hybrid.
         evolution_process (\<lambda>k. '''') ?H = Inr (individual @ [hybrid])
         \<and> length individual = 2
         \<and> map_of hybrid ''parent_hypotheses'' = Some (PList [PStr ''b'', PStr ''a''])"
    by blast
  with two_evolvable show ?thesis by (intro conjI)
qed

lemma individual_b:
  "individual_record
     [(''id'', PInt 8), (''statement'', PStr ''b''), (''rationale'', PStr ''rb''),
      (''evidence'', PStr ''eb''), (''assumptions'', PStr ''ab''),
      (''validation'', PStr ''vb''), (''rank'', PInt 1)] '''' =
   [(''id'', PInt 8), (''statement'', PStr ''''), (''rationale'', PStr ''''),
    (''evidence'', PStr ''''), (''assumptions'', PStr ''''), (''validation'', PStr ''''),
    (''evolution_text'', PStr ''''), (''original_rank'', PInt 1),
    (''evolution_type'', PStr ''individual_refinement'')]"
  unfolding individual_record_def
  by (subst parse_empty_some) (simp_all add: dict_merge_def rank_or_none_def)

lemma individual_a:
  "individual_record
     [(''id'', PInt 7), (''statement'', PStr ''a''), (''rationale'', PStr ''ra''),
      (''evidence'', PStr ''ea''), (''assumptions'', PStr ''aa''),
      (''validation'', PStr ''va''), (''rank'', PInt 2)] '''' =
   [(''id'', PInt 7), (''statement'', PStr ''''), (''rationale'', PStr ''''),
    (''evidence'', PStr ''''), (''assumptions'', PStr ''''), (''validation'', PStr ''''),
    (''evolution_text'', PStr ''''), (''original_rank'', PInt 2),
    (''evolution_type'', PStr ''individual_refinement'')]"
  unfolding individual_record_def
  by (subst parse_empty_some) (simp_all add: dict_merge_def rank_or_none_def)

lemma combine_b_a:
  "combine ''''
     [(''id'', PInt 8), (''statement'', PStr ''b''), (''rationale'', PStr ''rb''),
      (''evidence'', PStr ''eb''), (''assumptions'', PStr ''ab''),
      (''validation'', PStr ''vb''), (''rank'', PInt 1)]
     [(''id'', PInt 7), (''statement'', PStr ''a''), (''rationale'', PStr ''ra''),
      (''evidence'', PStr ''ea''), (''assumptions'', PStr ''aa''),
      (''validation'', PStr ''va''), (''rank'', PInt 2)] =
   Inr [(''statement'', PStr ''''), (''rationale'', PStr ''''), (''evidence'', PStr ''''),
        (''assumptions'', PStr ''''), (''validation'', PStr ''''),
        (''evolution_text'', PStr ''''), (''original_ranks'', PList [PInt 1, PInt 2]),
        (''evolution_type'', PStr ''hypothesis_combination''),
        (''parent_hypotheses'', PList [PStr ''b'', PStr ''a''])]"
  by (simp add: combine_def parse_empty_none sliceable_def rank_or_none_def)

text \<open>
  The claim as worded fails twice. A ranked list need not be one Evolution accepts: the
  record the generation parser writes has the key \<open>hypothesis\<close> and no \<open>statement\<close>, and
  on it Evolution raises and produces no variant. And the combination variant carries no
  parent ids: of two hypotheses with the ids 7 and 8 it records the statements \<open>b\<close> and
  \<open>a\<close> under \<open>parent_hypotheses\<close>, and neither it nor the refined variants have any other
  key that names a parent.
\<close>

theorem evolution_counterexample:
  "evolution_process (\<lambda>k. '''')
     [[(''hypothesis'', PStr ''a''), (''rank'', PInt 1), (''wins'', PInt 0),
       (''total_comparisons'', PInt 0)]] = Inl (KeyError ''statement'')
   \<and> evolution_process (\<lambda>k. '''')
       [[(''id'', PInt 7), (''statement'', PStr ''a''), (''rationale'', PStr ''ra''),
         (''evidence'', PStr ''ea''), (''assumptions'', PStr ''aa''),
         (''validation'', PStr ''va''), (''rank'', PInt 2)],
        [(''id'', PInt 8), (''statement'', PStr ''b''), (''rationale'', PStr ''rb''),
         (''evidence'', PStr ''eb''), (''assumptions'', PStr ''ab''),
         (''validation'', PStr ''vb''), (''rank'', PInt 1)]] =
     Inr [[(''id'', PInt 8), (''statement'', PStr ''''), (''rationale'', PStr ''''),
           (''evidence'', PStr ''''), (''assumptions'', PStr ''''),
           (''validation'', PStr ''''), (''evolution_text'', PStr ''''),
           (''original_rank'', PInt 1),
           (''evolution_type'', PStr ''individual_refinement'')],
          [(''id'', PInt 7), (''statement'', PStr ''''), (''rationale'', PStr ''''),
           (''evidence'', PStr ''''), (''assumptions'', PStr ''''),
           (''validation'', PStr ''''), (''evolution_text'', PStr ''''),
           (''original_rank'', PInt 2),
           (''evolution_type'', PStr ''individual_refinement'')],
          [(''statement'', PStr ''''), (''rationale'', PStr ''''), (''evidence'', PStr ''''),
           (''assumptions'', PStr ''''), (''validation'', PStr ''''),
           (''evolution_text'', PStr ''''), (''original_ranks'', PList [PInt 1, PInt 2]),
           (''evolution_type'', PStr ''hypothesis_combination''),
           (''parent_hypotheses'', PList [PStr ''b'', PStr ''a''])]]"
proof (intro conjI)
  show "evolution_process (\<lambda>k. '''')
     [[(''hypothesis'', PStr ''a''), (''rank'', PInt 1), (''wins'', PInt 0),
       (''total_comparisons'', PInt 0)]] = Inl (KeyError ''statement'')"
    by (simp add: evolution_process_def sort_by_rank_def rank_key_def num_of_def)
next
  have el: "evolve_loop (\<lambda>k. '''') 0
       [[(''id'', PInt 8), (''statement'', PStr ''b''), (''rationale'', PStr ''rb''),
         (''evidence'', PStr ''eb''), (''assumptions'', PStr ''ab''),
         (''validation'', PStr ''vb''), (''rank'', PInt 1)],
        [(''id'', PInt 7), (''statement'', PStr ''a''), (''rationale'', PStr ''ra''),
         (''evidence'', PStr ''ea''), (''assumptions'', PStr ''aa''),
         (''validation'', PStr ''va''), (''rank'', PInt 2)]] =
     Inr [individual_record
            [(''id'', PInt 8), (''statement'', PStr ''b''), (''rationale'', PStr ''rb''),
             (''evidence'', PStr ''eb''), (''assumptions'', PStr ''ab''),
             (''validation'', PStr ''vb''), (''rank'', PInt 1)] '''',
          individual_record
            [(''id'', PInt 7), (''statement'', PStr ''a''), (''rationale'', PStr ''ra''),
             (''evidence'', PStr ''ea''), (''assumptions'', PStr ''aa''),
             (''validation'', PStr ''va''), (''rank'', PInt 2)] '''']"
    by simp
  show "evolution_process (\<lambda>k. '''')
       [[(''id'', PInt 7), (''statement'', PStr ''a''), (''rationale'', PStr ''ra''),
         (''evidence'', PStr ''ea''), (''assumptions'', PStr ''aa''),
         (''validation'', PStr ''va''), (''rank'', PInt 2)],
        [(''id'', PInt 8), (''statement'', PStr ''b''), (''rationale'', PStr ''rb''),
         (''evidence'', PStr ''eb''), (''assumptions'', PStr ''ab''),
         (''validation'', PStr ''vb''), (''rank'', PInt 1)]] =
     Inr [[(''id'', PInt 8), (''statement'', PStr ''''), (''rationale'', PStr ''''),
           (''evidence'', PStr ''''), (''assumptions'', PStr ''''),
           (''validation'', PStr ''''), (''evolution_text'', PStr ''''),
           (''original_rank'', PInt 1),
           (''evolution_type'', PStr ''individual_refinement'')],
          [(''id'', PInt 7), (''statement'', PStr ''''), (''rationale'', PStr ''''),
           (''evidence'', PStr ''''), (''assumptions'', PStr ''''),
           (''validation'', PStr ''''), (''evolution_text'', PStr ''''),
           (''original_rank'', PInt 2),
           (''evolution_type'', PStr ''individual_refinement'')],
          [(''statement'', PStr ''''), (''rationale'', PStr ''''), (''evidence'', PStr ''''),
           (''assumptions'', PStr ''''), (''validation'', PStr ''''),
           (''evolution_text'', PStr ''''), (''original_ranks'', PList [PInt 1, PInt 2]),
           (''evolution_type'', PStr ''hypothesis_combination''),
           (''parent_hypotheses'', PList [PStr ''b'', PStr ''a''])]]"
    unfolding evolution_process_def two_sorted
    by (simp add: el combine_b_a individual_a individual_b)
qed

end
